theory Spec2Isabelle
  imports Main "HOL-Library.Char_ord" "HOL-Library.List_Lexorder" "HOL-Library.Extended_Nat"
begin

section \<open>Transaction Analyzer (calculate.py): the data model\<close>

text \<open>
  The script reads one sheet of a workbook into a data frame, drops incomplete rows,
  derives three date columns, filters by the sidebar selection and aggregates.
  A data frame is modelled as the list of its rows, in row order. Account codes are
  any linearly ordered type (Python sorts them). The amount column is a type with a
  zero, a one, an addition and a division: \<open>float64\<close> below is the type pandas gives
  the column, and an exact field (the rationals) is the same program with every
  addition exact. A column of whole numbers only, which pandas reads as \<^verbatim>\<open>int64\<close>, is
  not modelled.
\<close>

datatype month = Jan | Feb | Mar | Apr | May | Jun | Jul | Aug | Sep | Oct | Nov | Dec

record timestamp =
  ts_year :: int
  ts_month :: month
  ts_day :: nat

text \<open>\<^verbatim>\<open>.dt.month\<close>: the calendar number, 1 to 12.\<close>

fun month_number :: "month \<Rightarrow> nat" where
  "month_number Jan = 1"
| "month_number Feb = 2"
| "month_number Mar = 3"
| "month_number Apr = 4"
| "month_number May = 5"
| "month_number Jun = 6"
| "month_number Jul = 7"
| "month_number Aug = 8"
| "month_number Sep = 9"
| "month_number Oct = 10"
| "month_number Nov = 11"
| "month_number Dec = 12"

text \<open>\<^verbatim>\<open>.dt.strftime('%b')\<close>: the three-letter abbreviation.\<close>

fun strftime_b :: "month \<Rightarrow> string" where
  "strftime_b Jan = ''Jan''"
| "strftime_b Feb = ''Feb''"
| "strftime_b Mar = ''Mar''"
| "strftime_b Apr = ''Apr''"
| "strftime_b May = ''May''"
| "strftime_b Jun = ''Jun''"
| "strftime_b Jul = ''Jul''"
| "strftime_b Aug = ''Aug''"
| "strftime_b Sep = ''Sep''"
| "strftime_b Oct = ''Oct''"
| "strftime_b Nov = ''Nov''"
| "strftime_b Dec = ''Dec''"

text \<open>
  A row of \<^verbatim>\<open>Sheet1\<close> as \<^verbatim>\<open>read_excel\<close> delivers it: an empty cell is
  \<^verbatim>\<open>NaN\<close>/\<^verbatim>\<open>NaT\<close>, here \<open>None\<close>.
\<close>

record ('c, 'a) sheet_row =
  cell_Transaction_Date :: "timestamp option"
  cell_Account_Code :: "'c option"
  cell_Base_Amount :: "'a option"

text \<open>A row of \<^verbatim>\<open>df\<close> after cleaning and date processing (lines 18 to 24).\<close>

record ('c, 'a) txn =
  Transaction_Date :: timestamp
  Account_Code :: 'c
  Base_Amount :: 'a
  Year :: int
  Month :: string
  Month_Num :: nat

datatype py_error = KeyError | NameError | TypeError

section \<open>Load and clean\<close>

text \<open>\<^verbatim>\<open>df.dropna(subset=['Transaction Date', 'Account Code', 'Base Amount'])\<close>\<close>

definition dropna :: "('c, 'a) sheet_row list \<Rightarrow> ('c, 'a) sheet_row list" where
  "dropna df = filter (\<lambda>r. cell_Transaction_Date r \<noteq> None \<and> cell_Account_Code r \<noteq> None
                            \<and> cell_Base_Amount r \<noteq> None) df"

text \<open>
  Lines 21 to 24 on one row: the three derived columns. The result is \<open>None\<close> for
  a row with an empty required cell; no such row is left after \<open>dropna\<close>.
\<close>

definition date_processing :: "('c, 'a) sheet_row \<Rightarrow> ('c, 'a) txn option" where
  "date_processing r =
     (case (cell_Transaction_Date r, cell_Account_Code r, cell_Base_Amount r) of
        (Some d, Some c, Some a) \<Rightarrow>
          Some \<lparr>Transaction_Date = d, Account_Code = c, Base_Amount = a,
                Year = ts_year d, Month = strftime_b (ts_month d),
                Month_Num = month_number (ts_month d)\<rparr>
      | _ \<Rightarrow> None)"

definition load_and_clean :: "('c, 'a) sheet_row list \<Rightarrow> ('c, 'a) txn list" where
  "load_and_clean sheet = List.map_filter date_processing (dropna sheet)"

section \<open>Sidebar filters\<close>

text \<open>\<^verbatim>\<open>Series.unique()\<close>: the distinct values in order of first appearance.\<close>

fun unique :: "'a list \<Rightarrow> 'a list" where
  "unique [] = []"
| "unique (x # xs) = x # unique (filter (\<lambda>y. y \<noteq> x) xs)"

text \<open>\<^verbatim>\<open>dict(zip(keys, vals))\<close>: a later pair overwrites an earlier one.\<close>

definition dict_zip :: "'k list \<Rightarrow> 'v list \<Rightarrow> ('k \<rightharpoonup> 'v)" where
  "dict_zip ks vs = fold (\<lambda>(k, v) d. d(k \<mapsto> v)) (zip ks vs) Map.empty"

text \<open>
  \<^verbatim>\<open>sorted(xs, key=lambda m: d[m])\<close>: Python computes every key first (a missing
  key raises \<^verbatim>\<open>KeyError\<close>), then sorts stably by the keys.
\<close>

fun subscript_all :: "('k \<rightharpoonup> 'v) \<Rightarrow> 'k list \<Rightarrow> py_error + ('v \<times> 'k) list" where
  "subscript_all d [] = Inr []"
| "subscript_all d (k # ks) =
     (case d k of
        None \<Rightarrow> Inl KeyError
      | Some v \<Rightarrow> (case subscript_all d ks of
                     Inl e \<Rightarrow> Inl e
                   | Inr kvs \<Rightarrow> Inr ((v, k) # kvs)))"

definition sorted_by_dict :: "('k \<rightharpoonup> 'v::linorder) \<Rightarrow> 'k list \<Rightarrow> py_error + 'k list" where
  "sorted_by_dict d xs =
     (case subscript_all d xs of
        Inl e \<Rightarrow> Inl e
      | Inr kvs \<Rightarrow> Inr (map snd (sort_key fst kvs)))"

text \<open>What the three sidebar widgets return: the user's selection.\<close>

record 'c selection =
  selected_year :: int
  selected_codes :: "'c list"
  selected_months :: "string list"

definition df_year :: "('c, 'a) txn list \<Rightarrow> int \<Rightarrow> ('c, 'a) txn list" where
  "df_year df y = filter (\<lambda>r. Year r = y) df"

definition account_codes :: "('c::linorder, 'a) txn list \<Rightarrow> 'c list" where
  "account_codes dfy = sort (unique (map Account_Code dfy))"

definition month_options :: "('c, 'a) txn list \<Rightarrow> string list" where
  "month_options dfy = unique (map Month dfy)"

definition month_map :: "('c, 'a) txn list \<Rightarrow> (string \<rightharpoonup> nat)" where
  "month_map dfy = dict_zip (map Month dfy) (map Month_Num dfy)"

definition sorted_months :: "('c, 'a) txn list \<Rightarrow> py_error + string list" where
  "sorted_months dfy = sorted_by_dict (month_map dfy) (month_options dfy)"

text \<open>
  A multiselect returns a list of distinct options, in the order the user picked them;
  the year is one of the years of the data.
\<close>

definition valid_selection :: "('c::linorder, 'a) txn list \<Rightarrow> 'c selection \<Rightarrow> bool" where
  "valid_selection df sel \<longleftrightarrow>
     selected_year sel \<in> set (map Year df)
     \<and> distinct (selected_codes sel)
     \<and> set (selected_codes sel) \<subseteq> set (account_codes (df_year df (selected_year sel)))
     \<and> distinct (selected_months sel)
     \<and> set (selected_months sel) \<subseteq> set (month_options (df_year df (selected_year sel)))"

section \<open>Filtered data\<close>

text \<open>Lines 42 to 45: the boolean mask on \<^verbatim>\<open>df_year\<close>.\<close>

definition filtered_df :: "('c, 'a) txn list \<Rightarrow> 'c list \<Rightarrow> string list \<Rightarrow> ('c, 'a) txn list" where
  "filtered_df dfy codes months =
     filter (\<lambda>r. Account_Code r \<in> set codes \<and> Month r \<in> set months) dfy"

section \<open>The amounts: binary64\<close>

text \<open>
  A finite IEEE 754 double is \<open>Float64 m e\<close>, the number \<open>m * 2 ^ e\<close>, with \<open>m = 0\<close> and
  \<open>e = 0\<close> for zero and a mantissa of exactly 53 bits otherwise. The exponent is not
  bounded: overflow, subnormal numbers, infinities and the sign of zero are left out
  (the empty cells, pandas' \<^verbatim>\<open>NaN\<close>, are dropped at line 18).
\<close>

datatype float64 = Float64 int int

fun bit_length :: "int \<Rightarrow> int" where
  "bit_length n = (if n \<le> 0 then 0 else 1 + bit_length (n div 2))"

declare bit_length.simps [simp del]

text \<open>The integer nearest to \<open>n / d\<close> for \<open>0 \<le> n\<close> and \<open>0 < d\<close>, a tie going to the even one.\<close>

definition round_half_even :: "int \<Rightarrow> int \<Rightarrow> int" where
  "round_half_even n d =
     (let q = n div d; r = n mod d
      in if 2 * r < d then q else if d < 2 * r then q + 1 else if even q then q else q + 1)"

text \<open>
  The double nearest to \<open>n / d * 2 ^ ex\<close> for \<open>0 < d\<close> (round to nearest, ties to even):
  the quotient is scaled by \<open>2 ^ k\<close> into the range of 53-bit integers and rounded there.
\<close>

definition round_ratio :: "int \<Rightarrow> int \<Rightarrow> int \<Rightarrow> float64" where
  "round_ratio n d ex =
     (if n = 0 then Float64 0 0
      else let k1 = 53 - (bit_length \<bar>n\<bar> - bit_length d);
               k = (if 2 ^ 53 * (d * 2 ^ nat (- k1)) \<le> \<bar>n\<bar> * 2 ^ nat k1 then k1 - 1 else k1);
               m = round_half_even (\<bar>n\<bar> * 2 ^ nat k) (d * 2 ^ nat (- k))
           in if m = 2 ^ 53 then Float64 (sgn n * 2 ^ 52) (ex - k + 1)
              else Float64 (sgn n * m) (ex - k))"

text \<open>
  Addition and division are the exact result rounded once. Division by zero does not
  occur in the script: the only division is by the count of a non-empty column.
\<close>

instantiation float64 :: "{zero, one, plus, divide}"
begin

definition zero_float64 :: float64 where
  "zero_float64 = Float64 0 0"

definition one_float64 :: float64 where
  "one_float64 = Float64 (2 ^ 52) (- 52)"

fun plus_float64 :: "float64 \<Rightarrow> float64 \<Rightarrow> float64" where
  "plus_float64 (Float64 m1 e1) (Float64 m2 e2) =
     (let e = min e1 e2 in round_ratio (m1 * 2 ^ nat (e1 - e) + m2 * 2 ^ nat (e2 - e)) 1 e)"

fun divide_float64 :: "float64 \<Rightarrow> float64 \<Rightarrow> float64" where
  "divide_float64 (Float64 m1 e1) (Float64 m2 e2) = round_ratio (m1 * sgn m2) \<bar>m2\<bar> (e1 - e2)"

instance ..

end

text \<open>The double a cell holds when the sheet shows the decimal \<open>q\<close>: the nearest one.\<close>

definition float64_of_rat :: "rat \<Rightarrow> float64" where
  "float64_of_rat q = (let (a, b) = quotient_of q in round_ratio a b 0)"




section \<open>Key metrics\<close>

text \<open>
  \<^verbatim>\<open>Series.sum()\<close>: the values added from left to right, 0 for an empty series. numpy
  adds a column of fewer than eight values in exactly this order and longer ones in
  blocks, and \<^verbatim>\<open>groupby(...).sum()\<close> adds with a compensation term that changes
  nothing for a group of one or two values; with an exact addition every such order
  gives the same sum.
\<close>

definition series_sum :: "'a::{plus,zero} list \<Rightarrow> 'a" where
  "series_sum xs = foldl (+) 0 xs"

text \<open>The count of a column as a number of the column's type.\<close>

fun of_count :: "nat \<Rightarrow> 'a::{zero,one,plus}" where
  "of_count 0 = 0"
| "of_count (Suc n) = of_count n + 1"

text \<open>
  The result of \<^verbatim>\<open>Series.mean()\<close>: \<^verbatim>\<open>NaN\<close> for an empty series (pandas returns
  \<^verbatim>\<open>NaN\<close> there and raises nothing), otherwise the sum of the series divided by its
  count, a reduction of its own.
\<close>

datatype 'a pd_float = NaN | Num 'a

definition series_mean :: "'a::{zero,one,plus,divide} list \<Rightarrow> 'a pd_float" where
  "series_mean xs = (if xs = [] then NaN else Num (series_sum xs div of_count (length xs)))"

text \<open>The three metrics of lines 50 to 52, before they are formatted as text.\<close>

record 'a kpis =
  Total_Transactions :: nat
  Total_Amount :: 'a
  Avg_per_Transaction :: "'a pd_float"

definition KPIs :: "('c, 'a::{zero,one,plus,divide}) txn list \<Rightarrow> 'a kpis" where
  "KPIs fdf = \<lparr>Total_Transactions = length fdf,
               Total_Amount = series_sum (map Base_Amount fdf),
               Avg_per_Transaction = series_mean (map Base_Amount fdf)\<rparr>"

section \<open>Pivot table\<close>

text \<open>A table with a row index, column labels and one list of cells per row.\<close>

record ('c, 'a) pivot_tbl =
  index :: "'c list"
  columns :: "string list"
  cells :: "'a list list"

text \<open>
  \<^verbatim>\<open>pd.pivot_table(df, index='Account Code', columns='Month', values='Base Amount',
  aggfunc='sum', fill_value=0)\<close>: one row per account code of \<open>df\<close> and one column per
  month label of \<open>df\<close>, both sorted; a cell is the sum of its group, and
  \<^verbatim>\<open>fill_value\<close> where the group is empty.
\<close>

definition pivot_table :: "('c::linorder, 'a::{plus,zero}) txn list \<Rightarrow> ('c, 'a) pivot_tbl" where
  "pivot_table df =
     (let idx = sort (unique (map Account_Code df));
          cols = sort (unique (map Month df))
      in \<lparr>index = idx, columns = cols,
          cells = map (\<lambda>c. map (\<lambda>m.
                    let g = map Base_Amount (filter (\<lambda>r. Account_Code r = c \<and> Month r = m) df)
                    in if g = [] then 0 else series_sum g) cols) idx\<rparr>)"

text \<open>
  \<^verbatim>\<open>pivot.reindex(columns=new_cols, fill_value=fill)\<close>: the columns become
  \<open>new_cols\<close>; a label the table has keeps its cells, a new label gets \<open>fill\<close>.
\<close>

definition reindex :: "string list \<Rightarrow> 'a \<Rightarrow> ('c, 'a) pivot_tbl \<Rightarrow> ('c, 'a) pivot_tbl" where
  "reindex new_cols fill t =
     t\<lparr>columns := new_cols,
       cells := map (\<lambda>row. map (\<lambda>m. case map_of (zip (columns t) row) m of
                                        Some v \<Rightarrow> v
                                      | None \<Rightarrow> fill) new_cols) (cells t)\<rparr>"

text \<open>\<^verbatim>\<open>pivot.sum(axis=1)\<close>: the sum of each row over all its columns.\<close>

definition sum_axis1 :: "('c, 'a::{plus,zero}) pivot_tbl \<Rightarrow> 'a list" where
  "sum_axis1 t = map series_sum (cells t)"

text \<open>
  \<^verbatim>\<open>pivot[name] = vals\<close>: an existing column of that name is overwritten, otherwise
  the column is appended on the right.
\<close>

definition setitem :: "string \<Rightarrow> 'a list \<Rightarrow> ('c, 'a) pivot_tbl \<Rightarrow> ('c, 'a) pivot_tbl" where
  "setitem name vals t =
     (if name \<in> set (columns t)
      then t\<lparr>cells := map2 (\<lambda>row v. map2 (\<lambda>c x. if c = name then v else x) (columns t) row)
                           (cells t) vals\<rparr>
      else t\<lparr>columns := columns t @ [name],
             cells := map2 (\<lambda>row v. row @ [v]) (cells t) vals\<rparr>)"

text \<open>Lines 58 to 67.\<close>

definition pivot :: "('c::linorder, 'a::{plus,zero}) txn list \<Rightarrow> string list \<Rightarrow> ('c, 'a) pivot_tbl" where
  "pivot fdf sorted_ms =
     (let p = pivot_table fdf;
          p = reindex sorted_ms 0 p
      in setitem ''Total'' (sum_axis1 p) p)"

section \<open>Monthly totals and code totals\<close>

text \<open>
  \<^verbatim>\<open>df.groupby(key).agg({'Base Amount': 'sum'}).reset_index()\<close>: one row per key of
  \<open>df\<close>, keys sorted, with the sum of the group.
\<close>

definition groupby_sum :: "('r \<Rightarrow> 'k::linorder) \<Rightarrow> ('r \<Rightarrow> 'a::{plus,zero}) \<Rightarrow> 'r list \<Rightarrow> ('k \<times> 'a) list" where
  "groupby_sum key val df =
     map (\<lambda>k. (k, series_sum (map val (filter (\<lambda>r. key r = k) df)))) (sort (unique (map key df)))"

record 'a month_total =
  mt_Month :: string
  mt_Base_Amount :: 'a
  mt_Month_Num :: "nat option"

text \<open>
  \<^verbatim>\<open>Series.map(dict)\<close> gives \<^verbatim>\<open>NaN\<close> (here \<open>None\<close>) for a label the dict lacks, and
  \<^verbatim>\<open>sort_values\<close> puts \<^verbatim>\<open>NaN\<close> last.
\<close>

definition nan_last :: "nat option \<Rightarrow> enat" where
  "nan_last v = (case v of None \<Rightarrow> \<infinity> | Some n \<Rightarrow> enat n)"

text \<open>Lines 72 to 74.\<close>

definition monthly_totals :: "('c, 'a::{plus,zero}) txn list \<Rightarrow> (string \<rightharpoonup> nat) \<Rightarrow> 'a month_total list" where
  "monthly_totals fdf mm =
     (let mt = groupby_sum Month Base_Amount fdf;
          mt = map (\<lambda>(m, a). \<lparr>mt_Month = m, mt_Base_Amount = a, mt_Month_Num = mm m\<rparr>) mt
      in sort_key (\<lambda>e. nan_last (mt_Month_Num e)) mt)"

text \<open>Line 89.\<close>

definition code_totals :: "('c::linorder, 'a::{plus,zero}) txn list \<Rightarrow> ('c \<times> 'a) list" where
  "code_totals fdf = groupby_sum Account_Code Base_Amount fdf"

section \<open>The whole script\<close>

record ('c, 'a) report =
  rep_filtered_df :: "('c, 'a) txn list"
  rep_kpis :: "'a kpis"
  rep_pivot :: "('c, 'a) pivot_tbl"
  rep_monthly_totals :: "'a month_total list"
  rep_code_totals :: "('c \<times> 'a) list"

text \<open>
  One run of the script on an uploaded sheet and the widgets' values, with every data
  frame as a value. The only statement that can raise is the subscript
  \<^verbatim>\<open>month_map[m]\<close> of line 38. Reading the workbook, the charts, the formatting of
  numbers as text and the export are library calls on these values and are not
  modelled; neither is the run without an uploaded file, which only shows a message.
\<close>

definition calculate :: "('c::linorder, 'a::{zero,one,plus,divide}) sheet_row list \<Rightarrow> 'c selection \<Rightarrow> py_error + ('c, 'a) report" where
  "calculate sheet sel =
     (let df = load_and_clean sheet;
          dfy = df_year df (selected_year sel)
      in case sorted_months dfy of
           Inl e \<Rightarrow> Inl e
         | Inr sorted_ms \<Rightarrow>
             (let fdf = filtered_df dfy (selected_codes sel) (selected_months sel)
              in Inr \<lparr>rep_filtered_df = fdf,
                      rep_kpis = KPIs fdf,
                      rep_pivot = pivot fdf sorted_ms,
                      rep_monthly_totals = monthly_totals fdf (month_map dfy),
                      rep_code_totals = code_totals fdf\<rparr>))"

text \<open>The derived columns of a row agree with its date.\<close>

definition derived_ok :: "('c, 'a) txn \<Rightarrow> bool" where
  "derived_ok r \<longleftrightarrow> Year r = ts_year (Transaction_Date r)
     \<and> Month r = strftime_b (ts_month (Transaction_Date r))
     \<and> Month_Num r = month_number (ts_month (Transaction_Date r))"

section \<open>The aggregation on a store of frames\<close>

text \<open>
  Data frames are objects: a variable holds a reference, \<^verbatim>\<open>pivot['Total'] = ...\<close>
  and \<^verbatim>\<open>monthly_totals['Month_Num'] = ...\<close> change an object in place, and every
  other pandas call of lines 31 to 97 (boolean indexing, \<^verbatim>\<open>pivot_table\<close>,
  \<^verbatim>\<open>reindex\<close>, \<^verbatim>\<open>groupby(...).agg(...).reset_index()\<close>, \<^verbatim>\<open>sort_values\<close>)
  returns a new object. The store is the list of all objects; a reference is a position.
\<close>

datatype ('c, 'a) frame =
    TxnFrame "('c, 'a) txn list"
  | PivotFrame "('c, 'a) pivot_tbl"
  | SumsFrame "(string \<times> 'a) list"
  | TotalsFrame "'a month_total list"
  | CodeFrame "('c \<times> 'a) list"

definition alloc :: "('c, 'a) frame \<Rightarrow> ('c, 'a) frame list \<Rightarrow> nat \<times> ('c, 'a) frame list" where
  "alloc f h = (length h, h @ [f])"

definition get_txns :: "('c, 'a) frame list \<Rightarrow> nat \<Rightarrow> py_error + ('c, 'a) txn list" where
  "get_txns h a =
     (if a < length h then (case h ! a of TxnFrame x \<Rightarrow> Inr x | _ \<Rightarrow> Inl TypeError)
      else Inl NameError)"

definition get_pivot :: "('c, 'a) frame list \<Rightarrow> nat \<Rightarrow> py_error + ('c, 'a) pivot_tbl" where
  "get_pivot h a =
     (if a < length h then (case h ! a of PivotFrame x \<Rightarrow> Inr x | _ \<Rightarrow> Inl TypeError)
      else Inl NameError)"

definition get_sums :: "('c, 'a) frame list \<Rightarrow> nat \<Rightarrow> py_error + (string \<times> 'a) list" where
  "get_sums h a =
     (if a < length h then (case h ! a of SumsFrame x \<Rightarrow> Inr x | _ \<Rightarrow> Inl TypeError)
      else Inl NameError)"

definition get_totals :: "('c, 'a) frame list \<Rightarrow> nat \<Rightarrow> py_error + 'a month_total list" where
  "get_totals h a =
     (if a < length h then (case h ! a of TotalsFrame x \<Rightarrow> Inr x | _ \<Rightarrow> Inl TypeError)
      else Inl NameError)"

definition then_do :: "py_error + 'x \<Rightarrow> ('x \<Rightarrow> py_error + 'y) \<Rightarrow> py_error + 'y" where
  "then_do r k = (case r of Inl e \<Rightarrow> Inl e | Inr x \<Rightarrow> k x)"

text \<open>The script's variables after the pass: references into the store, and the metrics shown.\<close>

record 'a variables =
  var_df_year :: nat
  var_filtered_df :: nat
  var_pivot :: nat
  var_monthly_totals :: nat
  var_code_totals :: nat
  shown_kpis :: "'a kpis"

text \<open>
  Lines 31 to 97, statement by statement, from the store \<open>h\<close> in which \<^verbatim>\<open>df\<close> is
  the object at \<open>df_ref\<close>.
\<close>

definition aggregation_pass ::
  "'c::linorder selection \<Rightarrow> nat \<Rightarrow> ('c, 'a::{zero,one,plus,divide}) frame list
     \<Rightarrow> py_error + ('c, 'a) frame list \<times> 'a variables" where
  "aggregation_pass sel df_ref h =
     then_do (get_txns h df_ref) (\<lambda>df.
     let (r_df_year, h) = alloc (TxnFrame (df_year df (selected_year sel))) h in
     then_do (get_txns h r_df_year) (\<lambda>dfy.
     let mm = month_map dfy in
     then_do (sorted_months dfy) (\<lambda>sorted_ms.
     let (r_filtered_df, h) =
           alloc (TxnFrame (filtered_df dfy (selected_codes sel) (selected_months sel))) h in
     then_do (get_txns h r_filtered_df) (\<lambda>fdf.
     let shown = KPIs fdf;
         (r_pivot, h) = alloc (PivotFrame (pivot_table fdf)) h in
     then_do (get_pivot h r_pivot) (\<lambda>p.
     let (r_pivot, h) = alloc (PivotFrame (reindex sorted_ms 0 p)) h in
     then_do (get_pivot h r_pivot) (\<lambda>p.
     let h = h[r_pivot := PivotFrame (setitem ''Total'' (sum_axis1 p) p)];
         (r_monthly_totals, h) = alloc (SumsFrame (groupby_sum Month Base_Amount fdf)) h in
     then_do (get_sums h r_monthly_totals) (\<lambda>mt.
     let h = h[r_monthly_totals :=
                 TotalsFrame (map (\<lambda>(m, a). \<lparr>mt_Month = m, mt_Base_Amount = a, mt_Month_Num = mm m\<rparr>) mt)] in
     then_do (get_totals h r_monthly_totals) (\<lambda>mt.
     let (r_monthly_totals, h) =
           alloc (TotalsFrame (sort_key (\<lambda>e. nan_last (mt_Month_Num e)) mt)) h;
         (r_code_totals, h) = alloc (CodeFrame (groupby_sum Account_Code Base_Amount fdf)) h
     in Inr (h, \<lparr>var_df_year = r_df_year, var_filtered_df = r_filtered_df, var_pivot = r_pivot,
                 var_monthly_totals = r_monthly_totals, var_code_totals = r_code_totals,
                 shown_kpis = shown\<rparr>)))))))))"

section \<open>Excel export\<close>

text \<open>Python's \<^verbatim>\<open>str\<close> of an integer, which the f-strings of lines 103 and 109 apply to the year.\<close>

fun str_nat :: "nat \<Rightarrow> string" where
  "str_nat n = (if n < 10 then [''0123456789'' ! n]
                else str_nat (n div 10) @ [''0123456789'' ! (n mod 10)])"

declare str_nat.simps [simp del]

definition str_int :: "int \<Rightarrow> string" where
  "str_int i = (if i < 0 then ''-'' @ str_nat (nat (- i)) else str_nat (nat i))"

text \<open>
  A worksheet at table level: rows of cells, a cell holding a text, an account code or
  a number. A workbook is the list of its named sheets.
\<close>

datatype ('c, 'a) xl_cell = XText string | XCode 'c | XNumber 'a

type_synonym ('c, 'a) workbook = "(string \<times> ('c, 'a) xl_cell list list) list"

text \<open>
  \<^verbatim>\<open>pivot.to_excel(writer, sheet_name=name)\<close>: a new sheet whose first row holds the
  name of the index and the column labels, followed by one row per index entry with the
  entry and its cells.
\<close>

definition to_excel :: "('c, 'a) pivot_tbl \<Rightarrow> string \<Rightarrow> ('c, 'a) workbook \<Rightarrow> ('c, 'a) workbook" where
  "to_excel p name writer =
     writer @ [(name, (XText ''Account Code'' # map XText (columns p))
                       # map2 (\<lambda>c row. XCode c # map XNumber row) (index p) (cells p))]"

text \<open>What \<^verbatim>\<open>st.download_button\<close> is given.\<close>

record ('c, 'a) download =
  dl_data :: "('c, 'a) workbook"
  dl_file_name :: string
  dl_mime :: string

text \<open>Lines 101 to 111: a new workbook, the pivot written to it, the download offered.\<close>

definition excel_export :: "int \<Rightarrow> ('c, 'a) pivot_tbl \<Rightarrow> ('c, 'a) download" where
  "excel_export year p =
     (let output = to_excel p (''Pivot_'' @ str_int year) []
      in \<lparr>dl_data = output,
          dl_file_name = ''pivot_'' @ str_int year @ ''.xlsx'',
          dl_mime = ''application/vnd.openxmlformats-officedocument.spreadsheetml.sheet''\<rparr>)"

text \<open>
  Modelled from the spec: the re-parse of the exported file, which the script does not
  contain. It is \<^verbatim>\<open>pd.read_excel(file, sheet_name=name, index_col=0)\<close> at table level:
  the first row gives the column labels, the first cell of every other row the index
  entry and the rest of the row its cells; \<open>None\<close> when the sheet is missing or is not
  of that shape.
\<close>

fun parse_header :: "('c, 'a) xl_cell list \<Rightarrow> string list option" where
  "parse_header [] = Some []"
| "parse_header (XText s # cs) = map_option (\<lambda>r. s # r) (parse_header cs)"
| "parse_header (_ # cs) = None"

fun parse_numbers :: "('c, 'a) xl_cell list \<Rightarrow> 'a list option" where
  "parse_numbers [] = Some []"
| "parse_numbers (XNumber x # cs) = map_option (\<lambda>r. x # r) (parse_numbers cs)"
| "parse_numbers (_ # cs) = None"

fun parse_rows :: "('c, 'a) xl_cell list list \<Rightarrow> ('c list \<times> 'a list list) option" where
  "parse_rows [] = Some ([], [])"
| "parse_rows ((XCode c # cs) # rows) =
     (case (parse_numbers cs, parse_rows rows) of
        (Some xs, Some (idx, cls)) \<Rightarrow> Some (c # idx, xs # cls)
      | _ \<Rightarrow> None)"
| "parse_rows (_ # rows) = None"

definition read_excel :: "('c, 'a) workbook \<Rightarrow> string \<Rightarrow> ('c, 'a) pivot_tbl option" where
  "read_excel file name =
     (case map_of file name of
        Some ((XText _ # labels) # rows) \<Rightarrow>
          (case (parse_header labels, parse_rows rows) of
             (Some cols, Some (idx, cls)) \<Rightarrow> Some \<lparr>index = idx, columns = cols, cells = cls\<rparr>
           | _ \<Rightarrow> None)
      | _ \<Rightarrow> None)"

section \<open>Example rows\<close>

text \<open>A sheet row with all three cells filled, for the examples below.\<close>

definition excel_row :: "int \<Rightarrow> month \<Rightarrow> nat \<Rightarrow> 'c \<Rightarrow> 'a \<Rightarrow> ('c, 'a) sheet_row" where
  "excel_row y m d c a =
     \<lparr>cell_Transaction_Date = Some \<lparr>ts_year = y, ts_month = m, ts_day = d\<rparr>,
      cell_Account_Code = Some c, cell_Base_Amount = Some a\<rparr>"

section \<open>Basic facts\<close>

lemma set_unique: "set (unique xs) = set xs"
  by (induction xs rule: unique.induct) auto

lemma distinct_unique: "distinct (unique xs)"
  by (induction xs rule: unique.induct) (auto simp: set_unique)

lemma strftime_b_inj: "strftime_b a = strftime_b b \<Longrightarrow> a = b"
  by (cases a; cases b; simp)

lemma month_number_inj: "month_number a = month_number b \<Longrightarrow> a = b"
  by (cases a; cases b; simp)

lemma date_processing_Some:
  "date_processing r = Some t \<Longrightarrow>
     cell_Transaction_Date r = Some (Transaction_Date t) \<and> cell_Account_Code r = Some (Account_Code t)
     \<and> cell_Base_Amount r = Some (Base_Amount t) \<and> derived_ok t"
  by (auto simp: date_processing_def derived_ok_def split: option.splits)

lemma load_and_clean_derived: "t \<in> set (load_and_clean sheet) \<Longrightarrow> derived_ok t"
  by (auto simp: load_and_clean_def map_filter_def dest: date_processing_Some)

lemma fold_upd_other:
  "k \<notin> fst ` set kvs \<Longrightarrow> fold (\<lambda>(k, v) d. d(k \<mapsto> v)) kvs m k = m k"
  by (induction kvs arbitrary: m) (auto split: prod.splits)

lemma fold_upd_lookup:
  "(k, v) \<in> set kvs \<Longrightarrow> (\<forall>v'. (k, v') \<in> set kvs \<longrightarrow> v' = v) \<Longrightarrow>
     fold (\<lambda>(k, v) d. d(k \<mapsto> v)) kvs m k = Some v"
proof (induction kvs arbitrary: m)
  case Nil
  then show ?case by simp
next
  case (Cons p kvs)
  obtain k' v' where p: "p = (k', v')" by (cases p)
  show ?case
  proof (cases "k \<in> fst ` set kvs")
    case True
    then obtain w where "(k, w) \<in> set kvs" by force
    with Cons.prems(2) have in_kvs: "(k, v) \<in> set kvs" by auto
    from Cons.prems(2) have "\<forall>v'. (k, v') \<in> set kvs \<longrightarrow> v' = v" by simp
    with in_kvs have "fold (\<lambda>(k, v) d. d(k \<mapsto> v)) kvs (m(k' \<mapsto> v')) k = Some v"
      by (rule Cons.IH)
    then show ?thesis by (simp add: p del: fun_upd_apply)
  next
    case False
    with Cons.prems(1) have "p = (k, v)" by force
    moreover from False have "fold (\<lambda>(k, v) d. d(k \<mapsto> v)) kvs (m(k \<mapsto> v)) k = (m(k \<mapsto> v)) k"
      by (rule fold_upd_other)
    ultimately show ?thesis by (simp del: fun_upd_apply add: fun_upd_same)
  qed
qed

lemma month_map_lookup:
  assumes "\<forall>r\<in>set dfy. derived_ok r" and "r \<in> set dfy"
  shows "month_map dfy (Month r) = Some (Month_Num r)"
proof -
  have z: "zip (map Month dfy) (map Month_Num dfy) = map (\<lambda>r. (Month r, Month_Num r)) dfy"
    by (induction dfy) auto
  have "(Month r, Month_Num r) \<in> set (map (\<lambda>r. (Month r, Month_Num r)) dfy)"
    using assms(2) by auto
  moreover have "\<forall>v'. (Month r, v') \<in> set (map (\<lambda>r. (Month r, Month_Num r)) dfy) \<longrightarrow> v' = Month_Num r"
    using assms by (auto simp: derived_ok_def dest!: strftime_b_inj)
  ultimately show ?thesis
    unfolding month_map_def dict_zip_def z by (rule fold_upd_lookup)
qed

lemma subscript_all_total:
  "\<forall>k\<in>set ks. d k = Some (f k) \<Longrightarrow> subscript_all d ks = Inr (map (\<lambda>k. (f k, k)) ks)"
  by (induction ks) auto

lemma snd_insort_key_fst:
  "\<forall>p\<in>set ps. fst p = f (snd p) \<Longrightarrow>
     map snd (insort_key fst (f k, k) ps) = insort_key f k (map snd ps)"
  by (induction ps) auto

lemma snd_sort_key_fst:
  "map snd (sort_key fst (map (\<lambda>k. (f k, k)) ks)) = sort_key f ks"
proof (induction ks)
  case Nil
  then show ?case by simp
next
  case (Cons k ks)
  let ?ps = "sort_key fst (map (\<lambda>k. (f k, k)) ks)"
  have "\<forall>p\<in>set ?ps. fst p = f (snd p)"
    by auto
  then have "map snd (insort_key fst (f k, k) ?ps) = insort_key f k (map snd ?ps)"
    by (rule snd_insort_key_fst)
  then show ?case by (simp only: Cons list.map sort_key_simps)
qed

lemma sorted_by_dict_total:
  "\<forall>k\<in>set ks. d k = Some (f k) \<Longrightarrow> sorted_by_dict d ks = Inr (sort_key f ks)"
  using subscript_all_total [of ks d f] by (simp add: sorted_by_dict_def snd_sort_key_fst)

section \<open>Calendar order of the month options\<close>

lemma calendar_order:
  fixes g :: "string \<Rightarrow> 'o::linorder" and h :: "nat \<Rightarrow> 'o"
  assumes d: "distinct ls"
    and lab: "\<forall>l\<in>set ls. \<exists>mo. l = strftime_b mo \<and> g l = h (month_number mo)"
    and mono: "strict_mono h"
    and srt: "sorted (map g ls)"
  shows "\<exists>mos. ls = map strftime_b mos \<and> sorted_wrt (<) (map month_number mos)"
proof -
  define mos where "mos = map (inv strftime_b) ls"
  have inj: "inj strftime_b" by (rule injI) (rule strftime_b_inj)
  have rt: "strftime_b (inv strftime_b l) = l" if "l \<in> set ls" for l
    using lab that by (auto simp: inv_f_f [OF inj])
  have key: "g l = h (month_number (inv strftime_b l))" if "l \<in> set ls" for l
    using lab that by (auto simp: inv_f_f [OF inj])
  have ls: "ls = map strftime_b mos"
    unfolding mos_def by (simp add: map_idI rt)
  have gm: "map g ls = map h (map month_number mos)"
    unfolding mos_def by (simp add: key)
  have "distinct mos"
    using d unfolding ls by (simp add: distinct_map)
  then have dn: "distinct (map month_number mos)"
    by (simp add: distinct_map inj_on_def month_number_inj)
  have "sorted (map h (map month_number mos))"
    using srt gm by simp
  then have "sorted (map month_number mos)"
    using mono by (simp add: sorted_wrt_map strict_mono_less_eq comp_def)
  with dn have "sorted_wrt (<) (map month_number mos)"
    by (simp add: strict_sorted_iff)
  with ls show ?thesis by blast
qed

lemma sorted_months_eq:
  assumes "\<forall>r\<in>set dfy. derived_ok r"
  shows "sorted_months dfy = Inr (sort_key (\<lambda>l. the (month_map dfy l)) (month_options dfy))"
proof -
  have "\<forall>k\<in>set (month_options dfy). month_map dfy k = Some (the (month_map dfy k))"
    using assms by (auto simp: month_options_def set_unique month_map_lookup)
  then show ?thesis
    unfolding sorted_months_def by (rule sorted_by_dict_total)
qed

lemma sorted_months_props:
  assumes ok: "\<forall>r\<in>set dfy. derived_ok r"
  shows "\<exists>ms. sorted_months dfy = Inr ms \<and> set ms = Month ` set dfy \<and> distinct ms
           \<and> (\<exists>mos. ms = map strftime_b mos \<and> sorted_wrt (<) (map month_number mos))"
proof -
  let ?g = "\<lambda>l. the (month_map dfy l)"
  let ?ms = "sort_key ?g (month_options dfy)"
  have eq: "sorted_months dfy = Inr ?ms" using ok by (rule sorted_months_eq)
  have s: "set ?ms = Month ` set dfy" by (simp add: month_options_def set_unique)
  have d: "distinct ?ms" by (simp add: month_options_def distinct_unique)
  have "\<forall>l\<in>set ?ms. \<exists>mo. l = strftime_b mo \<and> ?g l = id (month_number mo)"
  proof
    fix l assume "l \<in> set ?ms"
    with s obtain r where r: "r \<in> set dfy" "l = Month r" by auto
    with ok have "derived_ok r" by simp
    moreover have "month_map dfy (Month r) = Some (Month_Num r)" using ok r(1) by (rule month_map_lookup)
    ultimately show "\<exists>mo. l = strftime_b mo \<and> ?g l = id (month_number mo)"
      using r(2) by (auto simp: derived_ok_def)
  qed
  moreover have "strict_mono (id :: nat \<Rightarrow> nat)" by (simp add: strict_mono_def)
  moreover have "sorted (map ?g ?ms)" by (rule sorted_sort_key)
  ultimately have "\<exists>mos. ?ms = map strftime_b mos \<and> sorted_wrt (<) (map month_number mos)"
    using d calendar_order [of ?ms ?g id] by blast
  with eq s d show ?thesis by blast
qed

section \<open>Grouping conserves sums; the shape of the pivot\<close>

text \<open>With an exact addition the left-to-right sum is the sum of the list.\<close>

lemma foldl_plus_sum_list:
  fixes a :: "'a::monoid_add"
  shows "foldl (+) a xs = a + sum_list xs"
  by (induction xs arbitrary: a) (simp_all add: add.assoc)

lemma series_sum_eq:
  fixes xs :: "'a::monoid_add list"
  shows "series_sum xs = sum_list xs"
  by (simp add: series_sum_def foldl_plus_sum_list)

lemma sum_list_delta:
  fixes v :: "'a::comm_monoid_add"
  shows "distinct ks \<Longrightarrow> sum_list (map (\<lambda>k. if a = k then v else 0) ks) = (if a \<in> set ks then v else 0)"
  by (induction ks) auto

lemma sum_list_groups:
  fixes val :: "'r \<Rightarrow> 'a::comm_monoid_add"
  assumes "distinct ks"
  shows "key ` set xs \<subseteq> set ks \<Longrightarrow>
    sum_list (map (\<lambda>k. sum_list (map val (filter (\<lambda>r. key r = k) xs))) ks) = sum_list (map val xs)"
proof (induction xs)
  case Nil
  then show ?case by simp
next
  case (Cons x xs)
  let ?S = "\<lambda>k. sum_list (map val (filter (\<lambda>r. key r = k) xs))"
  have "sum_list (map (\<lambda>k. sum_list (map val (filter (\<lambda>r. key r = k) (x # xs)))) ks)
        = sum_list (map (\<lambda>k. (if key x = k then val x else 0) + ?S k) ks)"
    by (rule arg_cong [where f = sum_list], rule map_cong) auto
  also have "\<dots> = sum_list (map (\<lambda>k. if key x = k then val x else 0) ks) + sum_list (map ?S ks)"
    by (rule sum_list_addf)
  also have "sum_list (map (\<lambda>k. if key x = k then val x else 0) ks) = val x"
    using Cons.prems assms by (simp add: sum_list_delta)
  also have "sum_list (map ?S ks) = sum_list (map val xs)"
    using Cons by simp
  finally show ?case by simp
qed




lemma pivot_eq:
  fixes fdf :: "('c::linorder, 'a::comm_monoid_add) txn list"
  assumes "''Total'' \<notin> set sm"
  shows "pivot fdf sm =
    \<lparr>index = sort (unique (map Account_Code fdf)),
     columns = sm @ [''Total''],
     cells = map (\<lambda>c. map (\<lambda>m. sum_list (map Base_Amount
                        (filter (\<lambda>r. Account_Code r = c \<and> Month r = m) fdf))) sm
                    @ [sum_list (map (\<lambda>m. sum_list (map Base_Amount
                        (filter (\<lambda>r. Account_Code r = c \<and> Month r = m) fdf))) sm)])
                 (sort (unique (map Account_Code fdf)))\<rparr>"
proof -
  let ?cols = "sort (unique (map Month fdf))"
  let ?F = "\<lambda>c m. if filter (\<lambda>r. Account_Code r = c \<and> Month r = m) fdf = [] then 0
                   else sum_list (map Base_Amount (filter (\<lambda>r. Account_Code r = c \<and> Month r = m) fdf))"
  let ?G = "\<lambda>c m. sum_list (map Base_Amount (filter (\<lambda>r. Account_Code r = c \<and> Month r = m) fdf))"
  have cell: "(case map_of (zip ?cols (map (?F c) ?cols)) m of Some v \<Rightarrow> v | None \<Rightarrow> 0) = ?G c m" for c m
  proof (cases "m \<in> set ?cols")
    case True
    then show ?thesis by (simp add: map_of_zip_map)
  next
    case False
    then have "filter (\<lambda>r. Account_Code r = c \<and> Month r = m) fdf = []"
      by (auto simp: set_unique filter_empty_conv)
    with False show ?thesis by (simp add: map_of_zip_map)
  qed
  have re: "reindex sm 0 (pivot_table fdf) =
      \<lparr>index = sort (unique (map Account_Code fdf)), columns = sm,
       cells = map (\<lambda>c. map (?G c) sm) (sort (unique (map Account_Code fdf)))\<rparr>"
    unfolding reindex_def pivot_table_def Let_def series_sum_eq
    by (simp add: comp_def cell)
  show ?thesis
    unfolding pivot_def Let_def re setitem_def sum_axis1_def
    using assms by (simp add: map2_map_map comp_def series_sum_eq)
qed

section \<open>The script never raises\<close>

lemma df_year_derived:
  "\<forall>r\<in>set (df_year (load_and_clean sheet) y). derived_ok r"
  by (auto simp: df_year_def dest: load_and_clean_derived)

lemma Total_not_month:
  "''Total'' \<notin> set (map strftime_b mos)"
proof
  assume "''Total'' \<in> set (map strftime_b mos)"
  then obtain mo where "strftime_b mo = ''Total''" by auto
  then show False by (cases mo) simp_all
qed

lemma calculate_Inr:
  fixes sheet :: "('c::linorder, 'a::{zero,one,plus,divide}) sheet_row list" and sel :: "'c selection"
  defines "dfy \<equiv> df_year (load_and_clean sheet) (selected_year sel)"
  defines "fdf \<equiv> filtered_df dfy (selected_codes sel) (selected_months sel)"
  shows "\<exists>ms mos. ms = map strftime_b mos
           \<and> sorted_wrt (<) (map month_number mos)
           \<and> distinct ms \<and> ''Total'' \<notin> set ms
           \<and> set ms = Month ` set dfy
           \<and> calculate sheet sel =
               Inr \<lparr>rep_filtered_df = fdf, rep_kpis = KPIs fdf,
                    rep_pivot = pivot fdf ms,
                    rep_monthly_totals = monthly_totals fdf (month_map dfy),
                    rep_code_totals = code_totals fdf\<rparr>"
proof -
  have "\<forall>r\<in>set dfy. derived_ok r" unfolding dfy_def by (rule df_year_derived)
  then obtain ms mos where ms: "sorted_months dfy = Inr ms" "set ms = Month ` set dfy"
      "ms = map strftime_b mos" "sorted_wrt (<) (map month_number mos)" "distinct ms"
    using sorted_months_props [of dfy] by blast
  have nt: "''Total'' \<notin> set ms"
    unfolding ms(3) by (rule Total_not_month)
  have "calculate sheet sel =
               Inr \<lparr>rep_filtered_df = fdf, rep_kpis = KPIs fdf,
                    rep_pivot = pivot fdf ms,
                    rep_monthly_totals = monthly_totals fdf (month_map dfy),
                    rep_code_totals = code_totals fdf\<rparr>"
    using ms(1) unfolding calculate_def Let_def dfy_def [symmetric] fdf_def [symmetric]
    by simp
  with ms nt show ?thesis by blast
qed

section \<open>Cleaning and filtering\<close>

text \<open>
  Claim C7. Every sheet row with an empty transaction date, account code or base amount
  is dropped by \<open>dropna\<close>, every row that stays has all three cells filled, each of
  them becomes exactly one row of the cleaned frame carrying those three cells, and the
  run goes on to a report: an incomplete row is never an error.
\<close>

theorem C7_incomplete_rows_dropped:
  fixes sheet :: "('c::linorder, 'a::field) sheet_row list"
  shows "(\<forall>r\<in>set sheet.
            (cell_Transaction_Date r = None \<or> cell_Account_Code r = None \<or> cell_Base_Amount r = None)
              \<longrightarrow> r \<notin> set (dropna sheet))
       \<and> (\<forall>r\<in>set (dropna sheet). r \<in> set sheet \<and>
            cell_Transaction_Date r \<noteq> None \<and> cell_Account_Code r \<noteq> None \<and> cell_Base_Amount r \<noteq> None)
       \<and> map date_processing (dropna sheet) = map Some (load_and_clean sheet)
       \<and> (\<forall>t\<in>set (load_and_clean sheet). \<exists>r\<in>set sheet.
            cell_Transaction_Date r = Some (Transaction_Date t)
            \<and> cell_Account_Code r = Some (Account_Code t)
            \<and> cell_Base_Amount r = Some (Base_Amount t))
       \<and> (\<exists>rep. calculate sheet sel = Inr rep)"
proof (intro conjI)
  show "\<forall>r\<in>set sheet.
            (cell_Transaction_Date r = None \<or> cell_Account_Code r = None \<or> cell_Base_Amount r = None)
              \<longrightarrow> r \<notin> set (dropna sheet)"
    by (auto simp: dropna_def)
  show "\<forall>r\<in>set (dropna sheet). r \<in> set sheet \<and>
            cell_Transaction_Date r \<noteq> None \<and> cell_Account_Code r \<noteq> None \<and> cell_Base_Amount r \<noteq> None"
    by (simp add: dropna_def)
  have some: "\<exists>t. date_processing r = Some t" if "r \<in> set (dropna sheet)" for r
    using that by (auto simp: dropna_def date_processing_def)
  have "map date_processing rows = map Some (List.map_filter date_processing rows)"
    if "\<forall>r\<in>set rows. \<exists>t. date_processing r = Some t" for rows :: "('c, 'a) sheet_row list"
    using that by (induction rows) (auto simp: map_filter_simps)
  then show "map date_processing (dropna sheet) = map Some (load_and_clean sheet)"
    unfolding load_and_clean_def using some by blast
  show "\<forall>t\<in>set (load_and_clean sheet). \<exists>r\<in>set sheet.
            cell_Transaction_Date r = Some (Transaction_Date t)
            \<and> cell_Account_Code r = Some (Account_Code t)
            \<and> cell_Base_Amount r = Some (Base_Amount t)"
  proof
    fix t assume "t \<in> set (load_and_clean sheet)"
    then obtain r where "r \<in> set (dropna sheet)" "date_processing r = Some t"
      by (auto simp: load_and_clean_def map_filter_def)
    then show "\<exists>r\<in>set sheet.
            cell_Transaction_Date r = Some (Transaction_Date t)
            \<and> cell_Account_Code r = Some (Account_Code t)
            \<and> cell_Base_Amount r = Some (Base_Amount t)"
      using date_processing_Some [of r t] by (auto simp: dropna_def)
  qed
  show "\<exists>rep. calculate sheet sel = Inr rep"
    using calculate_Inr [of sheet sel] by blast
qed

theorem C7_incomplete_rows_dropped_witness:
  "\<lparr>cell_Transaction_Date = None, cell_Account_Code = Some ''A100'', cell_Base_Amount = Some (50::rat)\<rparr>
      \<notin> set (dropna [excel_row 2024 Jan 5 ''A100'' 100,
                      \<lparr>cell_Transaction_Date = None, cell_Account_Code = Some ''A100'', cell_Base_Amount = Some 50\<rparr>])
   \<and> cell_Base_Amount (excel_row 2024 Jan 5 ''A100'' (100::rat)) \<noteq> None
   \<and> load_and_clean [excel_row 2024 Jan 5 ''A100'' (100::rat),
                      \<lparr>cell_Transaction_Date = None, cell_Account_Code = Some ''A100'', cell_Base_Amount = Some 50\<rparr>]
       = [\<lparr>Transaction_Date = \<lparr>ts_year = 2024, ts_month = Jan, ts_day = 5\<rparr>, Account_Code = ''A100'',
           Base_Amount = 100, Year = 2024, Month = ''Jan'', Month_Num = 1\<rparr>]"
proof -
  let ?bad = "\<lparr>cell_Transaction_Date = None, cell_Account_Code = Some ''A100'', cell_Base_Amount = Some (50::rat)\<rparr>"
  let ?good = "excel_row 2024 Jan 5 ''A100'' (100::rat)"
  let ?sheet = "[?good, ?bad]"
  let ?sel = "\<lparr>selected_year = 2024, selected_codes = [''A100''], selected_months = [''Jan'']\<rparr>"
  note inst = C7_incomplete_rows_dropped [of ?sheet ?sel]
  have 1: "?bad \<notin> set (dropna ?sheet)"
    by (rule inst [THEN conjunct1, rule_format]) simp_all
  have "?good \<in> set (dropna ?sheet)" by (simp add: dropna_def excel_row_def)
  then have 2: "cell_Base_Amount ?good \<noteq> None"
    by (simp add: inst [THEN conjunct2, THEN conjunct1, rule_format])
  have "map date_processing (dropna ?sheet) = map Some (load_and_clean ?sheet)"
    by (rule inst [THEN conjunct2, THEN conjunct2, THEN conjunct1])
  then have "[Some \<lparr>Transaction_Date = \<lparr>ts_year = 2024, ts_month = Jan, ts_day = 5\<rparr>, Account_Code = ''A100'',
           Base_Amount = (100::rat), Year = 2024, Month = ''Jan'', Month_Num = 1\<rparr>] = map Some (load_and_clean ?sheet)"
    by (simp add: dropna_def excel_row_def date_processing_def)
  then have 3: "load_and_clean ?sheet = [\<lparr>Transaction_Date = \<lparr>ts_year = 2024, ts_month = Jan, ts_day = 5\<rparr>, Account_Code = ''A100'',
           Base_Amount = 100, Year = 2024, Month = ''Jan'', Month_Num = 1\<rparr>]"
    by (auto simp: Cons_eq_map_conv)
  from 1 2 3 show ?thesis by (intro conjI)
qed

text \<open>
  Claim C4. The filtered frame is the part of \<open>df\<close>, in row order, whose rows have the
  selected year, an account code among the selected codes and a month label among the
  selected months: every row of it is a row of \<open>df\<close> and passes all three tests. The
  filter is a function of the frame and the selection and returns a new frame.
\<close>

theorem C4_filter_sound:
  "filtered_df (df_year df (selected_year sel)) (selected_codes sel) (selected_months sel)
     = filter (\<lambda>r. Year r = selected_year sel \<and> Account_Code r \<in> set (selected_codes sel)
                     \<and> Month r \<in> set (selected_months sel)) df
   \<and> (\<forall>r\<in>set (filtered_df (df_year df (selected_year sel)) (selected_codes sel) (selected_months sel)).
         r \<in> set df \<and> Year r = selected_year sel \<and> Account_Code r \<in> set (selected_codes sel)
         \<and> Month r \<in> set (selected_months sel))"
  by (auto simp: filtered_df_def df_year_def intro: filter_cong)

theorem C4_filter_sound_witness:
  "filtered_df (df_year (load_and_clean
        [excel_row 2024 Jan 5 ''A100'' (100::rat), excel_row 2023 Jan 7 ''A100'' 10,
         excel_row 2024 Feb 1 ''A100'' 20, excel_row 2024 Jan 9 ''B200'' 30]) 2024) [''A100''] [''Jan'']
     = [\<lparr>Transaction_Date = \<lparr>ts_year = 2024, ts_month = Jan, ts_day = 5\<rparr>, Account_Code = ''A100'',
         Base_Amount = 100, Year = 2024, Month = ''Jan'', Month_Num = 1\<rparr>]
   \<and> Year \<lparr>Transaction_Date = \<lparr>ts_year = 2024, ts_month = Jan, ts_day = 5\<rparr>, Account_Code = ''A100'',
         Base_Amount = (100::rat), Year = 2024, Month = ''Jan'', Month_Num = 1\<rparr> = 2024"
proof -
  let ?df = "load_and_clean
        [excel_row 2024 Jan 5 ''A100'' (100::rat), excel_row 2023 Jan 7 ''A100'' 10,
         excel_row 2024 Feb 1 ''A100'' 20, excel_row 2024 Jan 9 ''B200'' 30]"
  let ?sel = "\<lparr>selected_year = 2024, selected_codes = [''A100''], selected_months = [''Jan'']\<rparr>"
  let ?t = "\<lparr>Transaction_Date = \<lparr>ts_year = 2024, ts_month = Jan, ts_day = 5\<rparr>, Account_Code = ''A100'',
         Base_Amount = (100::rat), Year = 2024, Month = ''Jan'', Month_Num = 1\<rparr>"
  note inst = C4_filter_sound [of ?df ?sel]
  have 1: "filtered_df (df_year ?df 2024) [''A100''] [''Jan''] = [?t]"
    using inst [THEN conjunct1]
    by (simp add: load_and_clean_def dropna_def date_processing_def excel_row_def map_filter_simps)
  then have "?t \<in> set (filtered_df (df_year ?df (selected_year ?sel)) (selected_codes ?sel) (selected_months ?sel))"
    by simp
  then have 2: "Year ?t = 2024"
    using inst [THEN conjunct2, rule_format, of ?t] by simp
  from 1 2 show ?thesis by (intro conjI)
qed

section \<open>The pivot table\<close>

lemma pivot_row_sum:
  fixes fdf :: "('c, 'a::comm_monoid_add) txn list"
  assumes "distinct ms" and "Month ` set fdf \<subseteq> set ms"
  shows "sum_list (map (\<lambda>m. sum_list (map Base_Amount
                 (filter (\<lambda>r. Account_Code r = c \<and> Month r = m) fdf))) ms)
               = sum_list (map Base_Amount (filter (\<lambda>r. Account_Code r = c) fdf))"
proof -
  have "Month ` set (filter (\<lambda>r. Account_Code r = c) fdf) \<subseteq> set ms"
    using assms(2) by auto
  with assms(1)
  have "sum_list (map (\<lambda>m. sum_list (map Base_Amount
           (filter (\<lambda>r. Month r = m) (filter (\<lambda>r. Account_Code r = c) fdf)))) ms)
        = sum_list (map Base_Amount (filter (\<lambda>r. Account_Code r = c) fdf))"
    by (rule sum_list_groups)
  then show ?thesis by (simp only: filter_filter)
qed


lemma filtered_df_months:
  "Month ` set (filtered_df dfy codes months) \<subseteq> Month ` set dfy"
  by (auto simp: filtered_df_def)

section \<open>Sums of doubles that do not round\<close>











lemma pivot_shape:
  fixes fdf :: "('c::linorder, 'a::{plus,zero}) txn list"
  assumes "''Total'' \<notin> set ms"
  shows "index (pivot fdf ms) = sort (unique (map Account_Code fdf))"
    and "columns (pivot fdf ms) = ms @ [''Total'']"
    and "length (cells (pivot fdf ms)) = length (index (pivot fdf ms))"
    and "\<forall>row\<in>set (cells (pivot fdf ms)). length row = length ms + 1 \<and> last row = series_sum (butlast row)"
  using assms
  by (auto simp: pivot_def pivot_table_def reindex_def setitem_def sum_axis1_def Let_def
        map2_map_map)






lemma strict_sorted_sort_unique:
  "sorted_wrt (<) (sort (unique xs))"
  by (simp add: strict_sorted_iff distinct_unique)

text \<open>
  Claim C6. The rows of the pivot are exactly the account codes of the filtered frame,
  each once, in ascending order, one list of cells per code; the \<open>Total\<close> cell of a
  row is the sum of all filtered amounts of its code. So a code with a record in the
  filtered frame has a row even when its amounts cancel, and that row's \<open>Total\<close> is 0.
\<close>

theorem C6_pivot_rows_are_filtered_codes:
  fixes sheet :: "('c::linorder, 'a::field) sheet_row list"
  shows "\<exists>rep. calculate sheet sel = Inr rep
           \<and> set (index (rep_pivot rep)) = Account_Code ` set (rep_filtered_df rep)
           \<and> sorted_wrt (<) (index (rep_pivot rep))
           \<and> length (cells (rep_pivot rep)) = length (index (rep_pivot rep))
           \<and> (\<forall>i<length (index (rep_pivot rep)).
                 last (cells (rep_pivot rep) ! i)
                   = sum_list (map Base_Amount
                       (filter (\<lambda>r. Account_Code r = index (rep_pivot rep) ! i) (rep_filtered_df rep))))"
proof -
  let ?dfy = "df_year (load_and_clean sheet) (selected_year sel)"
  let ?fdf = "filtered_df ?dfy (selected_codes sel) (selected_months sel)"
  obtain ms where ms: "distinct ms" "''Total'' \<notin> set ms" "set ms = Month ` set ?dfy"
      "calculate sheet sel =
         Inr \<lparr>rep_filtered_df = ?fdf, rep_kpis = KPIs ?fdf,
              rep_pivot = pivot ?fdf ms,
              rep_monthly_totals = monthly_totals ?fdf (month_map ?dfy),
              rep_code_totals = code_totals ?fdf\<rparr>"
    using calculate_Inr [of sheet sel] by blast
  let ?rep = "\<lparr>rep_filtered_df = ?fdf, rep_kpis = KPIs ?fdf,
              rep_pivot = pivot ?fdf ms,
              rep_monthly_totals = monthly_totals ?fdf (month_map ?dfy),
              rep_code_totals = code_totals ?fdf\<rparr>"
  note pe = pivot_eq [OF ms(2), of ?fdf]
  have 1: "set (index (rep_pivot ?rep)) = Account_Code ` set (rep_filtered_df ?rep)"
    by (simp add: pe set_unique)
  have 2: "sorted_wrt (<) (index (rep_pivot ?rep))"
    by (simp add: pe strict_sorted_sort_unique del: sort_key_simps)
  have 3: "length (cells (rep_pivot ?rep)) = length (index (rep_pivot ?rep))"
    by (simp add: pe)
  have sub: "Month ` set ?fdf \<subseteq> set ms"
    using filtered_df_months [of ?dfy] ms(3) by blast
  have 4: "\<forall>i<length (index (rep_pivot ?rep)).
                 last (cells (rep_pivot ?rep) ! i)
                   = sum_list (map Base_Amount
                       (filter (\<lambda>r. Account_Code r = index (rep_pivot ?rep) ! i) (rep_filtered_df ?rep)))"
    by (simp add: pe pivot_row_sum [OF ms(1) sub])
  from ms(4) 1 2 3 4 show ?thesis by blast
qed

theorem C6_pivot_rows_are_filtered_codes_witness:
  "map_sum id rep_pivot
     (calculate [excel_row 2024 Jan 9 ''B200'' (30::rat), excel_row 2024 Jan 5 ''A100'' 5,
                 excel_row 2024 Feb 1 ''A100'' (- 5)]
        \<lparr>selected_year = 2024, selected_codes = [''B200'', ''A100''], selected_months = [''Feb'', ''Jan'']\<rparr>)
     = Inr \<lparr>index = [''A100'', ''B200''], columns = [''Jan'', ''Feb'', ''Total''],
            cells = [[5, - 5, 0], [30, 0, 30]]\<rparr>
   \<and> map_sum id (\<lambda>rep. last (cells (rep_pivot rep) ! 0))
     (calculate [excel_row 2024 Jan 9 ''B200'' (30::rat), excel_row 2024 Jan 5 ''A100'' 5,
                 excel_row 2024 Feb 1 ''A100'' (- 5)]
        \<lparr>selected_year = 2024, selected_codes = [''B200'', ''A100''], selected_months = [''Feb'', ''Jan'']\<rparr>)
     = Inr 0"
proof -
  let ?sheet = "[excel_row 2024 Jan 9 ''B200'' (30::rat), excel_row 2024 Jan 5 ''A100'' 5,
                 excel_row 2024 Feb 1 ''A100'' (- 5)]"
  let ?sel = "\<lparr>selected_year = 2024, selected_codes = [''B200'', ''A100''], selected_months = [''Feb'', ''Jan'']\<rparr>"
  have ev: "map_sum id rep_pivot (calculate ?sheet ?sel)
     = Inr \<lparr>index = [''A100'', ''B200''], columns = [''Jan'', ''Feb'', ''Total''],
            cells = [[5, - 5, 0], [30, 0, 30]]\<rparr>"
    by code_simp
  have evf: "map_sum id (\<lambda>rep. map (\<lambda>r. (Account_Code r, Base_Amount r)) (rep_filtered_df rep))
               (calculate ?sheet ?sel)
      = Inr [(''B200'', 30), (''A100'', 5), (''A100'', - 5)]"
    by code_simp
  obtain rep where rep: "calculate ?sheet ?sel = Inr rep"
      "\<forall>i<length (index (rep_pivot rep)).
                 last (cells (rep_pivot rep) ! i)
                   = sum_list (map Base_Amount
                       (filter (\<lambda>r. Account_Code r = index (rep_pivot rep) ! i) (rep_filtered_df rep)))"
    using C6_pivot_rows_are_filtered_codes [of ?sheet ?sel] by blast
  from ev rep(1) have i: "index (rep_pivot rep) = [''A100'', ''B200'']" by auto
  from evf rep(1) have f: "map (\<lambda>r. (Account_Code r, Base_Amount r)) (rep_filtered_df rep)
      = [(''B200'', 30), (''A100'', 5), (''A100'', - 5)]" by simp
  have "sum_list (map Base_Amount (filter (\<lambda>r. Account_Code r = c) (rep_filtered_df rep)))
        = sum_list (map snd (filter (\<lambda>p. fst p = c) (map (\<lambda>r. (Account_Code r, Base_Amount r)) (rep_filtered_df rep))))"
    for c :: string
    by (simp add: filter_map comp_def)
  then have "sum_list (map Base_Amount (filter (\<lambda>r. Account_Code r = ''A100'') (rep_filtered_df rep))) = 0"
    by (simp add: f)
  with rep(2) [rule_format, of 0] have "last (cells (rep_pivot rep) ! 0) = 0"
    by (simp add: i)
  with ev rep(1) show ?thesis by simp
qed

text \<open>
  Claim C1, as the code has it. The month columns of the pivot are the month options of
  the selected year, that is every month with a record in that year, in calendar order
  and followed by \<open>Total\<close>; they do not depend on which months are selected. Every
  month of a valid selection is among them. A cell is the sum of the filtered amounts of
  its code and month, so a month without a filtered record is a column of zeros.
\<close>

theorem C1_pivot_columns_are_month_options:
  fixes sheet :: "('c::linorder, 'a::field) sheet_row list"
  shows "\<exists>rep mos. calculate sheet sel = Inr rep
           \<and> columns (rep_pivot rep) = map strftime_b mos @ [''Total'']
           \<and> sorted_wrt (<) (map month_number mos)
           \<and> set (map strftime_b mos) = Month ` set (df_year (load_and_clean sheet) (selected_year sel))
           \<and> (valid_selection (load_and_clean sheet) sel
                \<longrightarrow> set (selected_months sel) \<subseteq> set (map strftime_b mos))
           \<and> length (cells (rep_pivot rep)) = length (index (rep_pivot rep))
           \<and> (\<forall>i<length (index (rep_pivot rep)). \<forall>j<length mos.
                 cells (rep_pivot rep) ! i ! j
                   = sum_list (map Base_Amount
                       (filter (\<lambda>r. Account_Code r = index (rep_pivot rep) ! i \<and> Month r = strftime_b (mos ! j))
                          (rep_filtered_df rep))))
           \<and> (\<forall>j<length mos. strftime_b (mos ! j) \<notin> Month ` set (rep_filtered_df rep)
                 \<longrightarrow> (\<forall>i<length (index (rep_pivot rep)). cells (rep_pivot rep) ! i ! j = 0))"
proof -
  let ?dfy = "df_year (load_and_clean sheet) (selected_year sel)"
  let ?fdf = "filtered_df ?dfy (selected_codes sel) (selected_months sel)"
  obtain ms mos where ms: "ms = map strftime_b mos" "sorted_wrt (<) (map month_number mos)"
      "''Total'' \<notin> set ms" "set ms = Month ` set ?dfy"
      "calculate sheet sel =
         Inr \<lparr>rep_filtered_df = ?fdf, rep_kpis = KPIs ?fdf,
              rep_pivot = pivot ?fdf ms,
              rep_monthly_totals = monthly_totals ?fdf (month_map ?dfy),
              rep_code_totals = code_totals ?fdf\<rparr>"
    using calculate_Inr [of sheet sel] by blast
  let ?rep = "\<lparr>rep_filtered_df = ?fdf, rep_kpis = KPIs ?fdf,
              rep_pivot = pivot ?fdf ms,
              rep_monthly_totals = monthly_totals ?fdf (month_map ?dfy),
              rep_code_totals = code_totals ?fdf\<rparr>"
  note pe = pivot_eq [OF ms(3), of ?fdf]
  have len: "length ms = length mos" by (simp add: ms(1))
  have nth: "ms ! j = strftime_b (mos ! j)" if "j < length mos" for j
    using that by (simp add: ms(1))
  have "columns (rep_pivot ?rep) = ms @ [''Total'']"
    by (simp add: pe)
  then have 1: "columns (rep_pivot ?rep) = map strftime_b mos @ [''Total'']"
    unfolding ms(1) .
  have 2: "set (map strftime_b mos) = Month ` set ?dfy"
    using ms(4) by (simp add: ms(1))
  have 3: "valid_selection (load_and_clean sheet) sel
                \<longrightarrow> set (selected_months sel) \<subseteq> set (map strftime_b mos)"
    unfolding 2 by (simp add: valid_selection_def month_options_def set_unique)
  have 4: "length (cells (rep_pivot ?rep)) = length (index (rep_pivot ?rep))"
    by (simp add: pe)
  have 5: "\<forall>i<length (index (rep_pivot ?rep)). \<forall>j<length mos.
                 cells (rep_pivot ?rep) ! i ! j
                   = sum_list (map Base_Amount
                       (filter (\<lambda>r. Account_Code r = index (rep_pivot ?rep) ! i \<and> Month r = strftime_b (mos ! j))
                          (rep_filtered_df ?rep)))"
    by (simp add: pe nth_append len nth)
  have 6: "\<forall>j<length mos. strftime_b (mos ! j) \<notin> Month ` set (rep_filtered_df ?rep)
                 \<longrightarrow> (\<forall>i<length (index (rep_pivot ?rep)). cells (rep_pivot ?rep) ! i ! j = 0)"
  proof (intro allI impI)
    fix j i
    assume j: "j < length mos" and no: "strftime_b (mos ! j) \<notin> Month ` set (rep_filtered_df ?rep)"
      and i: "i < length (index (rep_pivot ?rep))"
    from no have "\<forall>r\<in>set (rep_filtered_df ?rep). Month r \<noteq> strftime_b (mos ! j)"
      by (metis imageI)
    then have "filter (\<lambda>r. Account_Code r = index (rep_pivot ?rep) ! i \<and> Month r = strftime_b (mos ! j))
                          (rep_filtered_df ?rep) = []"
      by (simp add: filter_empty_conv)
    with 5 i j show "cells (rep_pivot ?rep) ! i ! j = 0" by simp
  qed
  from ms(5) 1 ms(2) 2 3 4 5 6 show ?thesis by blast
qed

theorem C1_pivot_columns_are_month_options_witness:
  "valid_selection
     (load_and_clean [excel_row 2024 Feb 1 ''B200'' (200::rat), excel_row 2024 Jan 5 ''A100'' 100])
     \<lparr>selected_year = 2024, selected_codes = [''A100'', ''B200''], selected_months = [''Jan'']\<rparr>
   \<and> map_sum id (\<lambda>rep. columns (rep_pivot rep))
       (calculate [excel_row 2024 Feb 1 ''B200'' (200::rat), excel_row 2024 Jan 5 ''A100'' 100]
          \<lparr>selected_year = 2024, selected_codes = [''A100'', ''B200''], selected_months = [''Jan'']\<rparr>)
       = Inr [''Jan'', ''Feb'', ''Total'']
   \<and> map_sum id (\<lambda>rep. cells (rep_pivot rep) ! 0 ! 1)
       (calculate [excel_row 2024 Feb 1 ''B200'' (200::rat), excel_row 2024 Jan 5 ''A100'' 100]
          \<lparr>selected_year = 2024, selected_codes = [''A100'', ''B200''], selected_months = [''Jan'']\<rparr>)
       = Inr 0"
proof -
  let ?sheet = "[excel_row 2024 Feb 1 ''B200'' (200::rat), excel_row 2024 Jan 5 ''A100'' 100]"
  let ?sel = "\<lparr>selected_year = 2024, selected_codes = [''A100'', ''B200''], selected_months = [''Jan'']\<rparr>"
  have v: "valid_selection (load_and_clean ?sheet) ?sel" by code_simp
  have evf: "map_sum id rep_filtered_df (calculate ?sheet ?sel)
      = Inr [\<lparr>Transaction_Date = \<lparr>ts_year = 2024, ts_month = Jan, ts_day = 5\<rparr>, Account_Code = ''A100'',
               Base_Amount = 100, Year = 2024, Month = ''Jan'', Month_Num = 1\<rparr>]"
    by code_simp
  have evi: "map_sum id (\<lambda>rep. index (rep_pivot rep)) (calculate ?sheet ?sel) = Inr [''A100'']"
    by code_simp
  have evy: "Month ` set (df_year (load_and_clean ?sheet) 2024) = {''Jan'', ''Feb''}"
    by (auto simp: df_year_def load_and_clean_def dropna_def date_processing_def excel_row_def map_filter_simps)
  obtain rep mos where rep: "calculate ?sheet ?sel = Inr rep"
      "columns (rep_pivot rep) = map strftime_b mos @ [''Total'']"
      "sorted_wrt (<) (map month_number mos)"
      "set (map strftime_b mos) = Month ` set (df_year (load_and_clean ?sheet) (selected_year ?sel))"
      "\<forall>j<length mos. strftime_b (mos ! j) \<notin> Month ` set (rep_filtered_df rep)
                 \<longrightarrow> (\<forall>i<length (index (rep_pivot rep)). cells (rep_pivot rep) ! i ! j = 0)"
    using C1_pivot_columns_are_month_options [of ?sheet ?sel] by blast
  from rep(4) evy have "strftime_b ` set mos = {strftime_b Jan, strftime_b Feb}" by simp
  then have "strftime_b ` set mos = strftime_b ` {Jan, Feb}" by simp
  then have smos: "set mos = {Jan, Feb}"
    by (rule inj_image_eq_iff [THEN iffD1, rotated]) (rule injI, rule strftime_b_inj)
  have dmos: "distinct mos" using rep(3) by (simp add: strict_sorted_iff distinct_map)
  from smos dmos have "length mos = 2"
    by (metis distinct_card card_2_iff month.distinct(1))
  then obtain a b where ab: "mos = [a, b]"
    by (metis (no_types) One_nat_def Suc_1 length_0_conv length_Suc_conv)
  with smos rep(3) have mos: "mos = [Jan, Feb]"
    by (cases a; cases b; auto)
  have 1: "columns (rep_pivot rep) = [''Jan'', ''Feb'', ''Total'']"
    using rep(2) by (simp add: mos)
  from evf rep(1) have f: "rep_filtered_df rep
      = [\<lparr>Transaction_Date = \<lparr>ts_year = 2024, ts_month = Jan, ts_day = 5\<rparr>, Account_Code = ''A100'',
               Base_Amount = 100, Year = 2024, Month = ''Jan'', Month_Num = 1\<rparr>]"
    by simp
  from evi rep(1) have i: "index (rep_pivot rep) = [''A100'']" by simp
  have "cells (rep_pivot rep) ! 0 ! 1 = 0"
    using rep(5) [rule_format, of 1 0] by (simp add: mos f i)
  with 1 v rep(1) show ?thesis by simp
qed

text \<open>
  The claim as the specification words it, that the columns are the selected months,
  fails: with records in January and February and only January selected (a valid
  selection), the pivot still has the February column, filled with zeros.
\<close>

theorem C1_selected_months_counterexample:
  "valid_selection
     (load_and_clean [excel_row 2024 Jan 5 ''A100'' (100::rat), excel_row 2024 Feb 1 ''B200'' 200])
     \<lparr>selected_year = 2024, selected_codes = [''A100'', ''B200''], selected_months = [''Jan'']\<rparr>
   \<and> map_sum id rep_pivot
       (calculate [excel_row 2024 Jan 5 ''A100'' (100::rat), excel_row 2024 Feb 1 ''B200'' 200]
          \<lparr>selected_year = 2024, selected_codes = [''A100'', ''B200''], selected_months = [''Jan'']\<rparr>)
       = Inr \<lparr>index = [''A100''], columns = [''Jan'', ''Feb'', ''Total''], cells = [[100, 0, 100]]\<rparr>"
  by code_simp

section \<open>Monthly totals, code totals and the metrics\<close>

lemma insort_key_map_comp:
  "insort_key f (g x) (map g xs) = map g (insort_key (\<lambda>y. f (g y)) x xs)"
  by (induction xs) auto

lemma sort_key_map_comp:
  "sort_key f (map g xs) = map g (sort_key (\<lambda>y. f (g y)) xs)"
  by (induction xs) (auto simp: insort_key_map_comp)

lemma monthly_totals_eq:
  fixes fdf :: "('c, 'a::comm_monoid_add) txn list"
  shows "monthly_totals fdf mm =
     map (\<lambda>k. \<lparr>mt_Month = k,
                mt_Base_Amount = sum_list (map Base_Amount (filter (\<lambda>r. Month r = k) fdf)),
                mt_Month_Num = mm k\<rparr>)
       (sort_key (\<lambda>k. nan_last (mm k)) (sort (unique (map Month fdf))))"
  by (simp add: monthly_totals_def groupby_sum_def comp_def sort_key_map_comp series_sum_eq
        del: sort_key_simps)

text \<open>
  Claim C5. The monthly totals have one entry per month label of the filtered frame;
  the entries are in strictly ascending calendar number, which is also the number the
  script attaches to each entry, and the amount of an entry is the sum of the filtered
  amounts with its label.
\<close>

theorem C5_monthly_totals_calendar_order:
  fixes sheet :: "('c::linorder, 'a::field) sheet_row list"
  shows "\<exists>rep mos. calculate sheet sel = Inr rep
           \<and> map mt_Month (rep_monthly_totals rep) = map strftime_b mos
           \<and> sorted_wrt (<) (map month_number mos)
           \<and> map mt_Month_Num (rep_monthly_totals rep) = map (\<lambda>mo. Some (month_number mo)) mos
           \<and> set (map strftime_b mos) = Month ` set (rep_filtered_df rep)
           \<and> (\<forall>e\<in>set (rep_monthly_totals rep).
                 mt_Base_Amount e
                   = sum_list (map Base_Amount (filter (\<lambda>r. Month r = mt_Month e) (rep_filtered_df rep))))"
proof -
  let ?dfy = "df_year (load_and_clean sheet) (selected_year sel)"
  let ?fdf = "filtered_df ?dfy (selected_codes sel) (selected_months sel)"
  let ?mm = "month_map ?dfy"
  obtain ms where ms:
      "calculate sheet sel =
         Inr \<lparr>rep_filtered_df = ?fdf, rep_kpis = KPIs ?fdf,
              rep_pivot = pivot ?fdf ms,
              rep_monthly_totals = monthly_totals ?fdf ?mm,
              rep_code_totals = code_totals ?fdf\<rparr>"
    using calculate_Inr [of sheet sel] by blast
  let ?rep = "\<lparr>rep_filtered_df = ?fdf, rep_kpis = KPIs ?fdf,
              rep_pivot = pivot ?fdf ms,
              rep_monthly_totals = monthly_totals ?fdf ?mm,
              rep_code_totals = code_totals ?fdf\<rparr>"
  let ?g = "\<lambda>k. nan_last (?mm k)"
  let ?ls = "sort_key ?g (sort (unique (map Month ?fdf)))"
  have ok: "\<forall>r\<in>set ?dfy. derived_ok r" by (rule df_year_derived)
  have sls: "set ?ls = Month ` set ?fdf" by (simp add: set_unique)
  have dls: "distinct ?ls" by (simp add: distinct_unique)
  have lab: "\<exists>mo. l = strftime_b mo \<and> ?mm l = Some (month_number mo)" if "l \<in> set ?ls" for l
  proof -
    from that sls filtered_df_months [of ?dfy] obtain r where r: "r \<in> set ?dfy" "l = Month r"
      by blast
    from ok r(1) have "derived_ok r" by simp
    moreover from ok r(1) have "?mm (Month r) = Some (Month_Num r)" by (rule month_map_lookup)
    ultimately show ?thesis using r(2) by (auto simp: derived_ok_def)
  qed
  then have "\<forall>l\<in>set ?ls. \<exists>mo. l = strftime_b mo \<and> ?g l = enat (month_number mo)"
    by (fastforce simp: nan_last_def)
  moreover have "strict_mono enat" by (simp add: strict_mono_def)
  moreover have "sorted (map ?g ?ls)" by (rule sorted_sort_key)
  ultimately obtain mos where mos: "?ls = map strftime_b mos" "sorted_wrt (<) (map month_number mos)"
    using dls calendar_order [of ?ls ?g enat] by blast
  have 1: "map mt_Month (rep_monthly_totals ?rep) = map strftime_b mos"
    using mos(1) by (simp add: monthly_totals_eq comp_def del: sort_key_simps)
  have num: "?mm (strftime_b mo) = Some (month_number mo)" if "mo \<in> set mos" for mo
  proof -
    from that have "strftime_b mo \<in> set ?ls" unfolding mos(1) by simp
    then obtain mo' where "strftime_b mo = strftime_b mo'" "?mm (strftime_b mo) = Some (month_number mo')"
      using lab by blast
    then show ?thesis using strftime_b_inj by metis
  qed
  have "map mt_Month_Num (rep_monthly_totals ?rep) = map ?mm ?ls"
    by (simp add: monthly_totals_eq comp_def del: sort_key_simps)
  also have "\<dots> = map ?mm (map strftime_b mos)" unfolding mos(1) ..
  also have "\<dots> = map (\<lambda>mo. Some (month_number mo)) mos"
    by (simp add: num)
  finally have 2: "map mt_Month_Num (rep_monthly_totals ?rep) = map (\<lambda>mo. Some (month_number mo)) mos" .
  have 3: "set (map strftime_b mos) = Month ` set (rep_filtered_df ?rep)"
    using sls unfolding mos(1) by simp
  have 4: "\<forall>e\<in>set (rep_monthly_totals ?rep).
                 mt_Base_Amount e
                   = sum_list (map Base_Amount (filter (\<lambda>r. Month r = mt_Month e) (rep_filtered_df ?rep)))"
    by (auto simp: monthly_totals_eq simp del: sort_key_simps)
  from ms 1 mos(2) 2 3 4 show ?thesis by blast
qed

theorem C5_monthly_totals_calendar_order_witness:
  "map_sum id rep_monthly_totals
     (calculate [excel_row 2024 Feb 3 ''A100'' (20::rat), excel_row 2024 Apr 5 ''A100'' 7,
                 excel_row 2024 Jan 9 ''B200'' 30, excel_row 2024 Feb 1 ''B200'' 1]
        \<lparr>selected_year = 2024, selected_codes = [''A100'', ''B200''],
         selected_months = [''Feb'', ''Apr'', ''Jan'']\<rparr>)
     = Inr [\<lparr>mt_Month = ''Jan'', mt_Base_Amount = 30, mt_Month_Num = Some 1\<rparr>,
            \<lparr>mt_Month = ''Feb'', mt_Base_Amount = 21, mt_Month_Num = Some 2\<rparr>,
            \<lparr>mt_Month = ''Apr'', mt_Base_Amount = 7, mt_Month_Num = Some 4\<rparr>]
   \<and> map_sum id (\<lambda>rep. sorted_wrt (<) (map (\<lambda>e. the (mt_Month_Num e)) (rep_monthly_totals rep)))
     (calculate [excel_row 2024 Feb 3 ''A100'' (20::rat), excel_row 2024 Apr 5 ''A100'' 7,
                 excel_row 2024 Jan 9 ''B200'' 30, excel_row 2024 Feb 1 ''B200'' 1]
        \<lparr>selected_year = 2024, selected_codes = [''A100'', ''B200''],
         selected_months = [''Feb'', ''Apr'', ''Jan'']\<rparr>)
     = Inr True"
proof -
  let ?sheet = "[excel_row 2024 Feb 3 ''A100'' (20::rat), excel_row 2024 Apr 5 ''A100'' 7,
                 excel_row 2024 Jan 9 ''B200'' 30, excel_row 2024 Feb 1 ''B200'' 1]"
  let ?sel = "\<lparr>selected_year = 2024, selected_codes = [''A100'', ''B200''],
         selected_months = [''Feb'', ''Apr'', ''Jan'']\<rparr>"
  have ev: "map_sum id rep_monthly_totals (calculate ?sheet ?sel)
     = Inr [\<lparr>mt_Month = ''Jan'', mt_Base_Amount = 30, mt_Month_Num = Some 1\<rparr>,
            \<lparr>mt_Month = ''Feb'', mt_Base_Amount = 21, mt_Month_Num = Some 2\<rparr>,
            \<lparr>mt_Month = ''Apr'', mt_Base_Amount = 7, mt_Month_Num = Some 4\<rparr>]"
    by code_simp
  obtain rep mos where rep: "calculate ?sheet ?sel = Inr rep"
      "sorted_wrt (<) (map month_number mos)"
      "map mt_Month_Num (rep_monthly_totals rep) = map (\<lambda>mo. Some (month_number mo)) mos"
    using C5_monthly_totals_calendar_order [of ?sheet ?sel] by blast
  have "map (\<lambda>e. the (mt_Month_Num e)) (rep_monthly_totals rep)
        = map the (map mt_Month_Num (rep_monthly_totals rep))"
    by (simp add: comp_def)
  also have "\<dots> = map month_number mos"
    unfolding rep(3) by (simp add: comp_def)
  finally have "sorted_wrt (<) (map (\<lambda>e. the (mt_Month_Num e)) (rep_monthly_totals rep))"
    using rep(2) by simp
  with ev rep(1) show ?thesis by simp
qed




text \<open>
  Claim C2, as the code has it. The run never raises. On an empty filtered frame the
  count is 0, the total is 0 and the average is \<open>NaN\<close>, the value pandas gives for the
  mean of an empty series: no sentinel such as 0 is put in its place. With no account
  code selected the filtered frame and the pivot have no rows. This holds for every
  type of amounts, \<open>float64\<close> included.
\<close>

theorem C2_average_of_empty_is_nan:
  fixes sheet :: "('c::linorder, 'a::{zero,one,plus,divide}) sheet_row list"
  shows "\<exists>rep. calculate sheet sel = Inr rep
          \<and> (rep_filtered_df rep = [] \<longrightarrow>
                rep_kpis rep = \<lparr>Total_Transactions = 0, Total_Amount = 0, Avg_per_Transaction = NaN\<rparr>)
          \<and> (selected_codes sel = [] \<longrightarrow> rep_filtered_df rep = [] \<and> index (rep_pivot rep) = []
                \<and> cells (rep_pivot rep) = [])"
proof -
  let ?dfy = "df_year (load_and_clean sheet) (selected_year sel)"
  let ?fdf = "filtered_df ?dfy (selected_codes sel) (selected_months sel)"
  obtain ms where ms:
      "calculate sheet sel =
         Inr \<lparr>rep_filtered_df = ?fdf, rep_kpis = KPIs ?fdf,
              rep_pivot = pivot ?fdf ms,
              rep_monthly_totals = monthly_totals ?fdf (month_map ?dfy),
              rep_code_totals = code_totals ?fdf\<rparr>"
    using calculate_Inr [of sheet sel] by blast
  let ?rep = "\<lparr>rep_filtered_df = ?fdf, rep_kpis = KPIs ?fdf,
              rep_pivot = pivot ?fdf ms,
              rep_monthly_totals = monthly_totals ?fdf (month_map ?dfy),
              rep_code_totals = code_totals ?fdf\<rparr>"
  have 1: "rep_filtered_df ?rep = [] \<longrightarrow>
                rep_kpis ?rep = \<lparr>Total_Transactions = 0, Total_Amount = 0, Avg_per_Transaction = NaN\<rparr>"
    by (simp add: KPIs_def series_sum_def series_mean_def)
  have 2: "selected_codes sel = [] \<longrightarrow> rep_filtered_df ?rep = [] \<and> index (rep_pivot ?rep) = []
                \<and> cells (rep_pivot ?rep) = []"
  proof
    assume "selected_codes sel = []"
    then have e: "?fdf = []" by (simp add: filtered_df_def)
    have "index (pivot ([] :: ('c, 'a) txn list) ms) = [] \<and> cells (pivot ([] :: ('c, 'a) txn list) ms) = []"
      by (simp add: pivot_def pivot_table_def reindex_def setitem_def sum_axis1_def Let_def)
    then show "rep_filtered_df ?rep = [] \<and> index (rep_pivot ?rep) = [] \<and> cells (rep_pivot ?rep) = []"
      by (simp add: e)
  qed
  from ms 1 2 show ?thesis by blast
qed

theorem C2_average_of_empty_is_nan_witness:
  "selected_codes \<lparr>selected_year = 2023, selected_codes = [] :: string list, selected_months = [''Jan'']\<rparr> = []
   \<and> map_sum id rep_kpis
     (calculate [excel_row 2023 Jan 5 ''A100'' (float64_of_rat 100)]
        \<lparr>selected_year = 2023, selected_codes = [], selected_months = [''Jan'']\<rparr>)
     = Inr \<lparr>Total_Transactions = 0, Total_Amount = Float64 0 0, Avg_per_Transaction = NaN\<rparr>"
proof -
  let ?sheet = "[excel_row 2023 Jan 5 ''A100'' (float64_of_rat 100)]"
  let ?sel = "\<lparr>selected_year = 2023, selected_codes = [] :: string list, selected_months = [''Jan'']\<rparr>"
  obtain rep where rep: "calculate ?sheet ?sel = Inr rep"
      "rep_filtered_df rep = [] \<longrightarrow>
          rep_kpis rep = \<lparr>Total_Transactions = 0, Total_Amount = 0, Avg_per_Transaction = NaN\<rparr>"
      "selected_codes ?sel = [] \<longrightarrow> rep_filtered_df rep = [] \<and> index (rep_pivot rep) = []
                \<and> cells (rep_pivot rep) = []"
    using C2_average_of_empty_is_nan [of ?sheet ?sel] by blast
  have s: "selected_codes ?sel = []" by simp
  with rep(3) have "rep_filtered_df rep = []" by blast
  with rep(2) have "rep_kpis rep = \<lparr>Total_Transactions = 0, Total_Amount = 0, Avg_per_Transaction = NaN\<rparr>"
    by blast
  with rep(1) have "map_sum id rep_kpis (calculate ?sheet ?sel)
     = Inr \<lparr>Total_Transactions = 0, Total_Amount = Float64 0 0, Avg_per_Transaction = NaN\<rparr>"
    by (simp add: zero_float64_def)
  with s show ?thesis by (intro conjI)
qed

text \<open>
  The claim as the specification words it, that the average of an empty selection is a
  sentinel in place of the undefined value, fails: with no account code selected the
  metrics are 0, 0 and \<open>NaN\<close>.
\<close>

theorem C2_sentinel_counterexample:
  "map_sum id rep_kpis
     (calculate [excel_row 2024 Jan 5 ''A100'' (100::rat), excel_row 2024 Feb 1 ''B200'' 200]
        \<lparr>selected_year = 2024, selected_codes = [], selected_months = [''Jan'', ''Feb'']\<rparr>)
     = Inr \<lparr>Total_Transactions = 0, Total_Amount = 0, Avg_per_Transaction = NaN\<rparr>"
  by code_simp

section \<open>Running the aggregation twice\<close>

text \<open>
  One pass on a store appends seven objects and leaves every object of the store as it
  was: the frames written in place are two of the seven.
\<close>

lemma aggregation_pass_run:
  fixes h :: "('c::linorder, 'a::field) frame list"
  assumes ref: "df_ref < length h" and obj: "h ! df_ref = TxnFrame df"
    and sm: "sorted_months (df_year df (selected_year sel)) = Inr ms"
  defines "dfy \<equiv> df_year df (selected_year sel)"
  defines "fdf \<equiv> filtered_df dfy (selected_codes sel) (selected_months sel)"
  shows "aggregation_pass sel df_ref h =
     Inr (h @ [TxnFrame dfy, TxnFrame fdf, PivotFrame (pivot_table fdf), PivotFrame (pivot fdf ms),
               TotalsFrame (map (\<lambda>(m, a). \<lparr>mt_Month = m, mt_Base_Amount = a,
                                            mt_Month_Num = month_map dfy m\<rparr>)
                              (groupby_sum Month Base_Amount fdf)),
               TotalsFrame (monthly_totals fdf (month_map dfy)),
               CodeFrame (code_totals fdf)],
          \<lparr>var_df_year = length h, var_filtered_df = length h + 1, var_pivot = length h + 3,
           var_monthly_totals = length h + 5, var_code_totals = length h + 6,
           shown_kpis = KPIs fdf\<rparr>)"
  using ref obj sm unfolding dfy_def fdf_def
  by (simp add: aggregation_pass_def then_do_def alloc_def get_txns_def get_pivot_def
        get_sums_def get_totals_def nth_append Let_def pivot_def monthly_totals_def code_totals_def)

text \<open>
  Claim C8. From any store that holds the cleaned frame \<^verbatim>\<open>df\<close>, the pass run twice with
  the same selection succeeds both times; neither run changes an object that existed
  before it, so \<^verbatim>\<open>df\<close> is not mutated; and the filtered frame, the metrics, the pivot,
  the monthly totals and the code totals of the second run equal those of the first,
  which are the ones \<open>calculate\<close> returns.
\<close>

theorem C8_aggregation_repeatable:
  fixes h :: "('c::linorder, 'a::field) frame list"
  assumes ref: "df_ref < length h" and obj: "h ! df_ref = TxnFrame (load_and_clean sheet)"
  shows "\<exists>h1 v1 h2 v2 rep.
           aggregation_pass sel df_ref h = Inr (h1, v1)
         \<and> aggregation_pass sel df_ref h1 = Inr (h2, v2)
         \<and> calculate sheet sel = Inr rep
         \<and> take (length h) h1 = h \<and> take (length h1) h2 = h1
         \<and> h1 ! var_filtered_df v1 = TxnFrame (rep_filtered_df rep)
         \<and> h2 ! var_filtered_df v2 = TxnFrame (rep_filtered_df rep)
         \<and> shown_kpis v1 = rep_kpis rep \<and> shown_kpis v2 = rep_kpis rep
         \<and> h1 ! var_pivot v1 = PivotFrame (rep_pivot rep)
         \<and> h2 ! var_pivot v2 = PivotFrame (rep_pivot rep)
         \<and> h1 ! var_monthly_totals v1 = TotalsFrame (rep_monthly_totals rep)
         \<and> h2 ! var_monthly_totals v2 = TotalsFrame (rep_monthly_totals rep)
         \<and> h1 ! var_code_totals v1 = CodeFrame (rep_code_totals rep)
         \<and> h2 ! var_code_totals v2 = CodeFrame (rep_code_totals rep)"
proof -
  let ?df = "load_and_clean sheet"
  let ?dfy = "df_year ?df (selected_year sel)"
  let ?fdf = "filtered_df ?dfy (selected_codes sel) (selected_months sel)"
  have "\<forall>r\<in>set ?dfy. derived_ok r" by (rule df_year_derived)
  then obtain ms where sm: "sorted_months ?dfy = Inr ms"
    using sorted_months_props [of ?dfy] by blast
  let ?new = "[TxnFrame ?dfy, TxnFrame ?fdf, PivotFrame (pivot_table ?fdf), PivotFrame (pivot ?fdf ms),
               TotalsFrame (map (\<lambda>(m, a). \<lparr>mt_Month = m, mt_Base_Amount = a,
                                            mt_Month_Num = month_map ?dfy m\<rparr>)
                              (groupby_sum Month Base_Amount ?fdf)),
               TotalsFrame (monthly_totals ?fdf (month_map ?dfy)),
               CodeFrame (code_totals ?fdf)]"
  let ?vars = "\<lambda>n. \<lparr>var_df_year = n, var_filtered_df = n + 1, var_pivot = n + 3,
           var_monthly_totals = n + 5, var_code_totals = n + 6, shown_kpis = KPIs ?fdf\<rparr>"
  let ?h1 = "h @ ?new"
  let ?h2 = "?h1 @ ?new"
  let ?rep = "\<lparr>rep_filtered_df = ?fdf, rep_kpis = KPIs ?fdf, rep_pivot = pivot ?fdf ms,
               rep_monthly_totals = monthly_totals ?fdf (month_map ?dfy),
               rep_code_totals = code_totals ?fdf\<rparr>"
  have run1: "aggregation_pass sel df_ref h = Inr (?h1, ?vars (length h))"
    using ref obj sm by (rule aggregation_pass_run)
  have ref1: "df_ref < length ?h1" using ref by simp
  have obj1: "?h1 ! df_ref = TxnFrame ?df" using ref obj by (simp add: nth_append)
  have run2: "aggregation_pass sel df_ref ?h1 = Inr (?h2, ?vars (length ?h1))"
    using ref1 obj1 sm by (rule aggregation_pass_run)
  have calc: "calculate sheet sel = Inr ?rep"
    using sm by (simp add: calculate_def Let_def)
  have "take (length h) ?h1 = h" by simp
  moreover have "take (length ?h1) ?h2 = ?h1" by simp
  moreover have "?h1 ! var_filtered_df (?vars (length h)) = TxnFrame (rep_filtered_df ?rep)"
    by (simp add: nth_append)
  moreover have "?h2 ! var_filtered_df (?vars (length ?h1)) = TxnFrame (rep_filtered_df ?rep)"
    by (simp add: nth_append)
  moreover have "shown_kpis (?vars (length h)) = rep_kpis ?rep" by simp
  moreover have "shown_kpis (?vars (length ?h1)) = rep_kpis ?rep" by simp
  moreover have "?h1 ! var_pivot (?vars (length h)) = PivotFrame (rep_pivot ?rep)"
    by (simp add: nth_append)
  moreover have "?h2 ! var_pivot (?vars (length ?h1)) = PivotFrame (rep_pivot ?rep)"
    by (simp add: nth_append)
  moreover have "?h1 ! var_monthly_totals (?vars (length h)) = TotalsFrame (rep_monthly_totals ?rep)"
    by (simp add: nth_append)
  moreover have "?h2 ! var_monthly_totals (?vars (length ?h1)) = TotalsFrame (rep_monthly_totals ?rep)"
    by (simp add: nth_append)
  moreover have "?h1 ! var_code_totals (?vars (length h)) = CodeFrame (rep_code_totals ?rep)"
    by (simp add: nth_append)
  moreover have "?h2 ! var_code_totals (?vars (length ?h1)) = CodeFrame (rep_code_totals ?rep)"
    by (simp add: nth_append)
  ultimately show ?thesis using run1 run2 calc by blast
qed

theorem C8_aggregation_repeatable_witness:
  "(0::nat) < length [TxnFrame (load_and_clean [excel_row 2024 Jan 5 ''A100'' (100::rat),
                                                 excel_row 2024 Feb 1 ''B200'' 200])]
   \<and> then_do
        (aggregation_pass
           \<lparr>selected_year = 2024, selected_codes = [''A100'', ''B200''], selected_months = [''Jan'', ''Feb'']\<rparr>
           0 [TxnFrame (load_and_clean [excel_row 2024 Jan 5 ''A100'' (100::rat),
                                        excel_row 2024 Feb 1 ''B200'' 200])])
        (\<lambda>(h1, v1). then_do
           (aggregation_pass
              \<lparr>selected_year = 2024, selected_codes = [''A100'', ''B200''], selected_months = [''Jan'', ''Feb'']\<rparr>
              0 h1)
           (\<lambda>(h2, v2). Inr (take 1 h2, h1 ! var_pivot v1, h2 ! var_pivot v2)))
     = Inr ([TxnFrame (load_and_clean [excel_row 2024 Jan 5 ''A100'' (100::rat),
                                       excel_row 2024 Feb 1 ''B200'' 200])],
            PivotFrame \<lparr>index = [''A100'', ''B200''], columns = [''Jan'', ''Feb'', ''Total''],
                        cells = [[100, 0, 100], [0, 200, 200]]\<rparr>,
            PivotFrame \<lparr>index = [''A100'', ''B200''], columns = [''Jan'', ''Feb'', ''Total''],
                        cells = [[100, 0, 100], [0, 200, 200]]\<rparr>)"
proof -
  let ?sheet = "[excel_row 2024 Jan 5 ''A100'' (100::rat), excel_row 2024 Feb 1 ''B200'' 200]"
  let ?sel = "\<lparr>selected_year = 2024, selected_codes = [''A100'', ''B200''], selected_months = [''Jan'', ''Feb'']\<rparr>"
  let ?h = "[TxnFrame (load_and_clean ?sheet)]"
  let ?P = "\<lparr>index = [''A100'', ''B200''], columns = [''Jan'', ''Feb'', ''Total''],
                        cells = [[100 :: rat, 0, 100], [0, 200, 200]]\<rparr>"
  have ref: "(0::nat) < length ?h" by simp
  have obj: "?h ! 0 = TxnFrame (load_and_clean ?sheet)" by simp
  obtain h1 v1 h2 v2 rep where r:
      "aggregation_pass ?sel 0 ?h = Inr (h1, v1)"
      "aggregation_pass ?sel 0 h1 = Inr (h2, v2)"
      "calculate ?sheet ?sel = Inr rep"
      "take (length ?h) h1 = ?h" "take (length h1) h2 = h1"
      "h1 ! var_pivot v1 = PivotFrame (rep_pivot rep)"
      "h2 ! var_pivot v2 = PivotFrame (rep_pivot rep)"
    using C8_aggregation_repeatable [OF ref obj, of ?sel] by blast
  have "map_sum id rep_pivot (calculate ?sheet ?sel) = Inr ?P" by code_simp
  with r(3) have P: "rep_pivot rep = ?P" by simp
  from r(4) have "1 \<le> length h1"
    by (metis One_nat_def length_Cons list.size(3) length_take min.cobounded1)
  then have "take 1 h2 = take 1 (take (length h1) h2)" by (simp add: min_def)
  also have "\<dots> = take 1 h1" by (simp only: r(5))
  also have "\<dots> = ?h" using r(4) by simp
  finally have t: "take 1 h2 = ?h" .
  from ref r(1,2) r(6,7) P t show ?thesis
    by (simp add: then_do_def)
qed

section \<open>The exported workbook\<close>

lemma parse_header_map: "parse_header (map XText ls) = Some ls"
  by (induction ls) auto

lemma parse_numbers_map: "parse_numbers (map XNumber xs) = Some xs"
  by (induction xs) auto

lemma parse_rows_map2:
  "length idx = length cls \<Longrightarrow>
     parse_rows (map2 (\<lambda>c row. XCode c # map XNumber row) idx cls) = Some (idx, cls)"
  by (induction idx cls rule: list_induct2) (auto simp: parse_numbers_map)

lemma read_excel_to_excel:
  assumes "length (index p) = length (cells p)"
  shows "read_excel (dl_data (excel_export y p)) (''Pivot_'' @ str_int y) = Some p"
  using assms
  by (simp add: excel_export_def to_excel_def read_excel_def parse_header_map parse_rows_map2)

text \<open>
  Claim C9. For every sheet and selection the download holds a workbook with the single
  sheet \<^verbatim>\<open>Pivot_<year>\<close>, is offered under the name \<^verbatim>\<open>pivot_<year>.xlsx\<close> with the
  MIME type of an Office Open XML spreadsheet, and reading that sheet back gives the
  pivot of the report, index, columns and cells: the month columns in calendar order
  followed by \<open>Total\<close>.
\<close>

theorem C9_export_round_trip:
  fixes sheet :: "('c::linorder, 'a::{zero,one,plus,divide}) sheet_row list"
  shows "\<exists>rep mos. calculate sheet sel = Inr rep
           \<and> map fst (dl_data (excel_export (selected_year sel) (rep_pivot rep)))
                = [''Pivot_'' @ str_int (selected_year sel)]
           \<and> dl_file_name (excel_export (selected_year sel) (rep_pivot rep))
                = ''pivot_'' @ str_int (selected_year sel) @ ''.xlsx''
           \<and> dl_mime (excel_export (selected_year sel) (rep_pivot rep))
                = ''application/vnd.openxmlformats-officedocument.spreadsheetml.sheet''
           \<and> read_excel (dl_data (excel_export (selected_year sel) (rep_pivot rep)))
                (''Pivot_'' @ str_int (selected_year sel)) = Some (rep_pivot rep)
           \<and> columns (rep_pivot rep) = map strftime_b mos @ [''Total'']
           \<and> sorted_wrt (<) (map month_number mos)"
proof -
  let ?dfy = "df_year (load_and_clean sheet) (selected_year sel)"
  let ?fdf = "filtered_df ?dfy (selected_codes sel) (selected_months sel)"
  obtain ms mos where ms: "ms = map strftime_b mos" "sorted_wrt (<) (map month_number mos)"
      "''Total'' \<notin> set ms"
      "calculate sheet sel =
         Inr \<lparr>rep_filtered_df = ?fdf, rep_kpis = KPIs ?fdf,
              rep_pivot = pivot ?fdf ms,
              rep_monthly_totals = monthly_totals ?fdf (month_map ?dfy),
              rep_code_totals = code_totals ?fdf\<rparr>"
    using calculate_Inr [of sheet sel] by blast
  let ?rep = "\<lparr>rep_filtered_df = ?fdf, rep_kpis = KPIs ?fdf,
              rep_pivot = pivot ?fdf ms,
              rep_monthly_totals = monthly_totals ?fdf (month_map ?dfy),
              rep_code_totals = code_totals ?fdf\<rparr>"
  let ?d = "excel_export (selected_year sel) (rep_pivot ?rep)"
  have 1: "map fst (dl_data ?d) = [''Pivot_'' @ str_int (selected_year sel)]"
    by (simp add: excel_export_def to_excel_def)
  have 2: "dl_file_name ?d = ''pivot_'' @ str_int (selected_year sel) @ ''.xlsx''"
    by (simp add: excel_export_def)
  have 3: "dl_mime ?d = ''application/vnd.openxmlformats-officedocument.spreadsheetml.sheet''"
    by (simp add: excel_export_def)
  have "length (index (rep_pivot ?rep)) = length (cells (rep_pivot ?rep))"
    using pivot_shape(3) [OF ms(3), of ?fdf] by simp
  then have 4: "read_excel (dl_data ?d) (''Pivot_'' @ str_int (selected_year sel)) = Some (rep_pivot ?rep)"
    by (rule read_excel_to_excel)
  have "columns (rep_pivot ?rep) = ms @ [''Total'']"
    using pivot_shape(2) [OF ms(3), of ?fdf] by simp
  then have 5: "columns (rep_pivot ?rep) = map strftime_b mos @ [''Total'']"
    unfolding ms(1) .
  show ?thesis
    by (rule exI [where x = ?rep], rule exI [where x = mos]) (intro conjI ms(4) 1 2 3 4 5 ms(2))
qed

theorem C9_export_round_trip_witness:
  "map_sum id (\<lambda>rep. (map fst (dl_data (excel_export 2024 (rep_pivot rep))),
                      dl_file_name (excel_export 2024 (rep_pivot rep)),
                      read_excel (dl_data (excel_export 2024 (rep_pivot rep))) ''Pivot_2024''))
     (calculate [excel_row 2024 Feb 1 ''B200'' (float64_of_rat 200),
                 excel_row 2024 Jan 5 ''A100'' (float64_of_rat (1005 / 10))]
        \<lparr>selected_year = 2024, selected_codes = [''A100'', ''B200''], selected_months = [''Jan'', ''Feb'']\<rparr>)
   = Inr ([''Pivot_2024''], ''pivot_2024.xlsx'',
          Some \<lparr>index = [''A100'', ''B200''], columns = [''Jan'', ''Feb'', ''Total''],
                cells = [[float64_of_rat (1005 / 10), float64_of_rat 0, float64_of_rat (1005 / 10)],
                         [float64_of_rat 0, float64_of_rat 200, float64_of_rat 200]]\<rparr>)"
proof -
  let ?sheet = "[excel_row 2024 Feb 1 ''B200'' (float64_of_rat 200),
                 excel_row 2024 Jan 5 ''A100'' (float64_of_rat (1005 / 10))]"
  let ?sel = "\<lparr>selected_year = 2024, selected_codes = [''A100'', ''B200''], selected_months = [''Jan'', ''Feb'']\<rparr>"
  let ?P = "\<lparr>index = [''A100'', ''B200''], columns = [''Jan'', ''Feb'', ''Total''],
                cells = [[float64_of_rat (1005 / 10), float64_of_rat 0, float64_of_rat (1005 / 10)],
                         [float64_of_rat 0, float64_of_rat 200, float64_of_rat 200]]\<rparr>"
  obtain rep where rep: "calculate ?sheet ?sel = Inr rep"
      "map fst (dl_data (excel_export (selected_year ?sel) (rep_pivot rep)))
                = [''Pivot_'' @ str_int (selected_year ?sel)]"
      "dl_file_name (excel_export (selected_year ?sel) (rep_pivot rep))
                = ''pivot_'' @ str_int (selected_year ?sel) @ ''.xlsx''"
      "read_excel (dl_data (excel_export (selected_year ?sel) (rep_pivot rep)))
                (''Pivot_'' @ str_int (selected_year ?sel)) = Some (rep_pivot rep)"
    using C9_export_round_trip [of ?sheet ?sel]
    apply (elim exE conjE)
    apply (rule that)
       apply assumption+
    done
  have y: "str_int 2024 = ''2024''" by code_simp
  have "map_sum id rep_pivot (calculate ?sheet ?sel) = Inr ?P" by code_simp
  with rep(1) have P: "rep_pivot rep = ?P" by simp
  from rep(2,3,4) y have "map fst (dl_data (excel_export 2024 (rep_pivot rep))) = [''Pivot_2024'']"
      "dl_file_name (excel_export 2024 (rep_pivot rep)) = ''pivot_2024.xlsx''"
      "read_excel (dl_data (excel_export 2024 (rep_pivot rep))) ''Pivot_2024'' = Some (rep_pivot rep)"
    by simp_all
  with rep(1) show ?thesis by (simp add: P)
qed

end
